theory Spec2Isabelle
  imports Main
begin

section \<open>Errors, slots and the raw buffer\<close>

text \<open>
  The container of \<^verbatim>\<open>simple_vector.h\<close> is embedded as pure functions on a record.
  Two ways of not returning normally are kept apart:
  \<^item> \<open>out_of_range msg\<close>: the exception \<^verbatim>\<open>std::out_of_range\<close> thrown by \<^verbatim>\<open>At\<close>, with its message;
  \<^item> \<open>undefined_behaviour\<close>: an access outside the allocated block (the C++ program has
    undefined behaviour there; the model stops with this value).

  Allocation is taken to succeed. Lengths and capacities are natural numbers; \<^verbatim>\<open>size_t\<close> is
  taken to have 64 bits, and the product \<^verbatim>\<open>capacity_multiplier * n\<close>, where the code can leave
  its range, is computed modulo \<open>2 ^ 64\<close> (\<open>size_t_mul\<close>). A block that exists has at most
  \<open>2 ^ 63 - 1\<close> slots, so twice its capacity is at most \<open>SIZE_MAX\<close>; the theorems on growth
  carry this as the hypothesis \<open>capacity_multiplier * capacity \<le> SIZE_MAX\<close>.
\<close>

datatype error = out_of_range string | undefined_behaviour

text \<open>
  A slot of the block either holds a live value (\<open>Some x\<close>) or has unspecified content
  (\<open>None\<close>): freshly allocated and never assigned, or moved from.
\<close>

type_synonym 'a slot = "'a option"

text \<open>
  Modelled from the spec: the buffer owner \<^verbatim>\<open>ArrayPtr\<close> of \<^verbatim>\<open>array_ptr.h\<close>, which is included by
  \<^verbatim>\<open>simple_vector.h\<close> but is not part of the sources at hand. It exclusively owns a block of
  slots; \<open>ArrayPtr_new n\<close> allocates \<open>n\<close> slots of unspecified content, indexed access is
  unchecked, and moving the owner leaves the source with no block.
\<close>

type_synonym 'a ArrayPtr = "'a slot list"

definition ArrayPtr_new :: "nat \<Rightarrow> 'a ArrayPtr" where
  "ArrayPtr_new n = replicate n None"

definition bind_err :: "error + 'a \<Rightarrow> ('a \<Rightarrow> error + 'b) \<Rightarrow> error + 'b" where
  "bind_err m f = (case m of Inl e \<Rightarrow> Inl e | Inr x \<Rightarrow> f x)"

text \<open>\<^verbatim>\<open>data_[i]\<close> read and \<^verbatim>\<open>data_[i] = x\<close>: unchecked in C++, an error of the model out of range.\<close>

definition slot_read :: "'a ArrayPtr \<Rightarrow> nat \<Rightarrow> error + 'a slot" where
  "slot_read buf i = (if i < length buf then Inr (buf ! i) else Inl undefined_behaviour)"

definition slot_write :: "'a ArrayPtr \<Rightarrow> nat \<Rightarrow> 'a slot \<Rightarrow> error + 'a ArrayPtr" where
  "slot_write buf i x = (if i < length buf then Inr (buf[i := x]) else Inl undefined_behaviour)"

section \<open>The standard algorithms used by the container\<close>

text \<open>
  Iterators are raw pointers into a block; they are modelled as offsets from the start of
  the block. Each algorithm is the loop of its C++ definition. The flag \<open>mv\<close> says that the
  source range is read through \<^verbatim>\<open>std::make_move_iterator\<close>: the slot read is then left with
  unspecified content. The algorithms come in two forms: between two different blocks, and
  inside one block (where source and destination ranges may overlap).
\<close>

text \<open>\<^verbatim>\<open>std::copy(first, last, d_first)\<close>: \<^verbatim>\<open>while (first != last) *d_first++ = *first++;\<close>\<close>

function std_copy ::
  "bool \<Rightarrow> 'a ArrayPtr \<Rightarrow> nat \<Rightarrow> nat \<Rightarrow> 'a ArrayPtr \<Rightarrow> nat \<Rightarrow> error + ('a ArrayPtr \<times> 'a ArrayPtr)" where
  "std_copy mv src first last' dst d_first =
     (if first = last' then Inr (src, dst)
      else if length src \<le> first \<or> length dst \<le> d_first then Inl undefined_behaviour
      else std_copy mv (if mv then src[first := None] else src) (Suc first) last'
             (dst[d_first := src ! first]) (Suc d_first))"
  by pat_completeness auto
termination
  by (relation "measure (\<lambda>(mv, src, first, last', dst, d_first). length src - first)") auto

function std_copy_in :: "bool \<Rightarrow> 'a ArrayPtr \<Rightarrow> nat \<Rightarrow> nat \<Rightarrow> nat \<Rightarrow> error + 'a ArrayPtr" where
  "std_copy_in mv buf first last' d_first =
     (if first = last' then Inr buf
      else if length buf \<le> first \<or> length buf \<le> d_first then Inl undefined_behaviour
      else std_copy_in mv
             (if mv then (buf[d_first := buf ! first])[first := None] else buf[d_first := buf ! first])
             (Suc first) last' (Suc d_first))"
  by pat_completeness auto
termination
  by (relation "measure (\<lambda>(mv, buf, first, last', d_first). length buf - first)") auto

text \<open>
  \<^verbatim>\<open>std::copy_backward(first, last, d_last)\<close>: \<^verbatim>\<open>while (first != last) *(--d_last) = *(--last);\<close>
  Stepping a pointer below the start of its block is outside the block.
\<close>

function std_copy_backward ::
  "bool \<Rightarrow> 'a ArrayPtr \<Rightarrow> nat \<Rightarrow> nat \<Rightarrow> 'a ArrayPtr \<Rightarrow> nat \<Rightarrow> error + ('a ArrayPtr \<times> 'a ArrayPtr)" where
  "std_copy_backward mv src first last' dst d_last =
     (if first = last' then Inr (src, dst)
      else if last' = 0 \<or> d_last = 0 then Inl undefined_behaviour
      else if length src \<le> last' - 1 \<or> length dst \<le> d_last - 1 then Inl undefined_behaviour
      else std_copy_backward mv (if mv then src[last' - 1 := None] else src) first (last' - 1)
             (dst[d_last - 1 := src ! (last' - 1)]) (d_last - 1))"
  by pat_completeness auto
termination
  by (relation "measure (\<lambda>(mv, src, first, last', dst, d_last). last')") auto

function std_copy_backward_in :: "bool \<Rightarrow> 'a ArrayPtr \<Rightarrow> nat \<Rightarrow> nat \<Rightarrow> nat \<Rightarrow> error + 'a ArrayPtr" where
  "std_copy_backward_in mv buf first last' d_last =
     (if first = last' then Inr buf
      else if last' = 0 \<or> d_last = 0 then Inl undefined_behaviour
      else if length buf \<le> last' - 1 \<or> length buf \<le> d_last - 1 then Inl undefined_behaviour
      else std_copy_backward_in mv
             (if mv then (buf[d_last - 1 := buf ! (last' - 1)])[last' - 1 := None]
              else buf[d_last - 1 := buf ! (last' - 1)])
             first (last' - 1) (d_last - 1))"
  by pat_completeness auto
termination
  by (relation "measure (\<lambda>(mv, buf, first, last', d_last). last')") auto

text \<open>\<^verbatim>\<open>std::fill(first, last, value)\<close>: \<^verbatim>\<open>for (; first != last; ++first) *first = value;\<close>\<close>

function std_fill :: "'a ArrayPtr \<Rightarrow> nat \<Rightarrow> nat \<Rightarrow> 'a \<Rightarrow> error + 'a ArrayPtr" where
  "std_fill buf first last' val =
     (if first = last' then Inr buf
      else if length buf \<le> first then Inl undefined_behaviour
      else std_fill (buf[first := Some val]) (Suc first) last' val)"
  by pat_completeness auto
termination
  by (relation "measure (\<lambda>(buf, first, last', val). length buf - first)") auto

text \<open>
  \<^verbatim>\<open>std::equal(first1, last1, first2, last2)\<close>: the two ranges are walked together; the
  result is true when both end at the same time and no pair of elements differed.
\<close>

function std_equal :: "'a ArrayPtr \<Rightarrow> nat \<Rightarrow> nat \<Rightarrow> 'a ArrayPtr \<Rightarrow> nat \<Rightarrow> nat \<Rightarrow> error + bool" where
  "std_equal b1 first1 last1 b2 first2 last2 =
     (if first1 = last1 \<or> first2 = last2 then Inr (first1 = last1 \<and> first2 = last2)
      else if length b1 \<le> first1 \<or> length b2 \<le> first2 then Inl undefined_behaviour
      else if b1 ! first1 \<noteq> b2 ! first2 then Inr False
      else std_equal b1 (Suc first1) last1 b2 (Suc first2) last2)"
  by pat_completeness auto
termination
  by (relation "measure (\<lambda>(b1, first1, last1, b2, first2, last2). length b1 - first1)") auto

section \<open>The container\<close>

text \<open>
  \<^verbatim>\<open>SimpleVector<Type>\<close>: the owned block, the logical length and the physical capacity.
  The constant member \<^verbatim>\<open>capacity_multiplier\<close> is 2 in every object. The members
  \<^verbatim>\<open>data_\<close>, \<^verbatim>\<open>size_\<close> and \<^verbatim>\<open>capacity_\<close> are the fields \<open>data_m\<close>, \<open>size_m\<close> and \<open>capacity_m\<close>.
\<close>

record 'a SimpleVector =
  data_m :: "'a ArrayPtr"
  size_m :: nat
  capacity_m :: nat

definition capacity_multiplier :: nat where
  "capacity_multiplier = 2"

definition SIZE_MAX :: nat where
  "SIZE_MAX = 2 ^ 64 - 1"

text \<open>Multiplication of two \<^verbatim>\<open>size_t\<close> values: unsigned, wrapping.\<close>

definition size_t_mul :: "nat \<Rightarrow> nat \<Rightarrow> nat" where
  "size_t_mul a b = (a * b) mod (SIZE_MAX + 1)"

type_synonym Iterator = nat

text \<open>
  \<^verbatim>\<open>Realloc(new_capacity)\<close>: a requested capacity of 0 becomes 1, a new block is swapped in,
  and the old block is returned to the caller (first component).
\<close>

definition Realloc :: "'a SimpleVector \<Rightarrow> nat \<Rightarrow> 'a ArrayPtr \<times> 'a SimpleVector" where
  "Realloc v new_capacity =
     (let new_capacity = (if new_capacity = 0 then 1 else new_capacity);
          tmp = ArrayPtr_new new_capacity
      in (data_m v, v\<lparr>data_m := tmp, capacity_m := new_capacity\<rparr>))"

subsection \<open>Constructors\<close>

definition SimpleVector_default :: "'a SimpleVector" where
  "SimpleVector_default = \<lparr>data_m = [], size_m = 0, capacity_m = 0\<rparr>"

text \<open>\<^verbatim>\<open>SimpleVector(size_t size)\<close>; \<open>dflt\<close> is the value \<^verbatim>\<open>Type{}\<close>.\<close>

definition SimpleVector_n :: "'a \<Rightarrow> nat \<Rightarrow> error + 'a SimpleVector" where
  "SimpleVector_n dflt n =
     bind_err (std_fill (ArrayPtr_new n) 0 n dflt)
       (\<lambda>d. Inr \<lparr>data_m = d, size_m = n, capacity_m = n\<rparr>)"

text \<open>\<^verbatim>\<open>SimpleVector(const ReserveProxyObj&)\<close>; the proxy only carries the capacity to reserve.\<close>

definition SimpleVector_reserve :: "nat \<Rightarrow> 'a SimpleVector" where
  "SimpleVector_reserve n = \<lparr>data_m = ArrayPtr_new n, size_m = 0, capacity_m = n\<rparr>"

definition SimpleVector_n_value :: "nat \<Rightarrow> 'a \<Rightarrow> error + 'a SimpleVector" where
  "SimpleVector_n_value n val =
     bind_err (std_fill (ArrayPtr_new n) 0 n val)
       (\<lambda>d. Inr \<lparr>data_m = d, size_m = n, capacity_m = n\<rparr>)"

definition SimpleVector_init :: "'a list \<Rightarrow> error + 'a SimpleVector" where
  "SimpleVector_init init =
     bind_err (std_copy False (map Some init) 0 (length init) (ArrayPtr_new (length init)) 0)
       (\<lambda>(_, d). Inr \<lparr>data_m = d, size_m = length init, capacity_m = length init\<rparr>)"

definition SimpleVector_copy :: "'a SimpleVector \<Rightarrow> error + 'a SimpleVector" where
  "SimpleVector_copy other =
     bind_err (std_copy False (data_m other) 0 (size_m other) (ArrayPtr_new (capacity_m other)) 0)
       (\<lambda>(_, d). Inr \<lparr>data_m = d, size_m = size_m other, capacity_m = capacity_m other\<rparr>)"

text \<open>
  The move constructor takes over the block; the result is the new object and the state
  in which \<open>other\<close> is left.
\<close>

definition SimpleVector_move :: "'a SimpleVector \<Rightarrow> 'a SimpleVector \<times> 'a SimpleVector" where
  "SimpleVector_move other =
     (\<lparr>data_m = data_m other, size_m = size_m other, capacity_m = capacity_m other\<rparr>,
      other\<lparr>data_m := [], size_m := 0, capacity_m := 0\<rparr>)"

subsection \<open>Observers and access\<close>

definition GetSize :: "'a SimpleVector \<Rightarrow> nat" where
  "GetSize v = size_m v"

definition GetCapacity :: "'a SimpleVector \<Rightarrow> nat" where
  "GetCapacity v = capacity_m v"

definition IsEmpty :: "'a SimpleVector \<Rightarrow> bool" where
  "IsEmpty v \<longleftrightarrow> size_m v = 0"

definition begin_it :: "'a SimpleVector \<Rightarrow> Iterator" where
  "begin_it v = 0"

definition end_it :: "'a SimpleVector \<Rightarrow> Iterator" where
  "end_it v = 0 + size_m v"

text \<open>\<^verbatim>\<open>operator[]\<close>: the slot at \<open>index\<close>, with no check against the length.\<close>

definition subscript :: "'a SimpleVector \<Rightarrow> nat \<Rightarrow> error + 'a slot" where
  "subscript v index = slot_read (data_m v) index"

definition At :: "'a SimpleVector \<Rightarrow> nat \<Rightarrow> error + 'a slot" where
  "At v index =
     (if index \<ge> size_m v then Inl (out_of_range ''index out of range in SimpleVector::At'')
      else slot_read (data_m v) index)"

definition At_const :: "'a SimpleVector \<Rightarrow> nat \<Rightarrow> error + 'a slot" where
  "At_const v index =
     (if index \<ge> size_m v
      then Inl (out_of_range ''index out of range in SimpleVector::At(const Type)'')
      else slot_read (data_m v) index)"

subsection \<open>Modifiers\<close>

text \<open>
  Arguments passed by reference (\<open>item\<close>, \<open>val\<close>) are values of the model: they are taken
  not to refer to a slot of the vector that the call shifts or moves from.
\<close>

definition PushBack :: "'a SimpleVector \<Rightarrow> 'a \<Rightarrow> error + 'a SimpleVector" where
  "PushBack v item =
     (if size_m v < capacity_m v then
        bind_err (slot_write (data_m v) (size_m v) (Some item))
          (\<lambda>d. Inr (v\<lparr>data_m := d, size_m := size_m v + 1\<rparr>))
      else
        (case Realloc v (size_t_mul capacity_multiplier (capacity_m v)) of (tmp, v1) \<Rightarrow>
           bind_err (std_copy False tmp 0 (size_m v1) (data_m v1) 0)
             (\<lambda>(tmp1, d1). bind_err (slot_write d1 (size_m v1) (Some item))
               (\<lambda>d2. Inr (v1\<lparr>data_m := d2, size_m := size_m v1 + 1\<rparr>)))))"

definition PushBack_move :: "'a SimpleVector \<Rightarrow> 'a \<Rightarrow> error + 'a SimpleVector" where
  "PushBack_move v item =
     (if size_m v < capacity_m v then
        bind_err (slot_write (data_m v) (size_m v) (Some item))
          (\<lambda>d. Inr (v\<lparr>data_m := d, size_m := size_m v + 1\<rparr>))
      else
        (case Realloc v (size_t_mul capacity_multiplier (capacity_m v)) of (tmp, v1) \<Rightarrow>
           bind_err (std_copy True tmp 0 (size_m v1) (data_m v1) 0)
             (\<lambda>(tmp1, d1). bind_err (slot_write d1 (size_m v1) (Some item))
               (\<lambda>d2. Inr (v1\<lparr>data_m := d2, size_m := size_m v1 + 1\<rparr>)))))"

text \<open>
  \<^verbatim>\<open>Insert(ConstIterator pos, const Type& value)\<close>. On the growth path the second copy ends
  at \<^verbatim>\<open>data_.Get() + 1\<close>, as the source has it. The result is the vector and the returned
  iterator.
\<close>

definition Insert :: "'a SimpleVector \<Rightarrow> Iterator \<Rightarrow> 'a \<Rightarrow> error + ('a SimpleVector \<times> Iterator)" where
  "Insert v pos val =
     (let dist = pos - 0 in
      if size_m v < capacity_m v then
        bind_err (std_copy_backward_in False (data_m v) dist (size_m v) (size_m v + 1))
          (\<lambda>d1. bind_err (slot_write d1 dist (Some val))
            (\<lambda>d2. Inr (v\<lparr>data_m := d2, size_m := size_m v + 1\<rparr>, 0 + dist)))
      else
        (case Realloc v (size_t_mul capacity_multiplier (capacity_m v)) of (tmp, v1) \<Rightarrow>
           bind_err (std_copy False tmp 0 dist (data_m v1) 0)
             (\<lambda>(tmp1, d1). bind_err (std_copy_backward False tmp1 dist (size_m v1) d1 1)
               (\<lambda>(tmp2, d2). bind_err (slot_write d2 dist (Some val))
                 (\<lambda>d3. Inr (v1\<lparr>data_m := d3, size_m := size_m v1 + 1\<rparr>, 0 + dist))))))"

text \<open>
  \<^verbatim>\<open>Insert(ConstIterator pos, Type&& value)\<close>. Here the second copy of the growth path ends
  at \<^verbatim>\<open>data_.Get() + size_ + 1\<close>.
\<close>

definition Insert_move :: "'a SimpleVector \<Rightarrow> Iterator \<Rightarrow> 'a \<Rightarrow> error + ('a SimpleVector \<times> Iterator)" where
  "Insert_move v pos val =
     (let dist = pos - 0 in
      if size_m v < capacity_m v then
        bind_err (std_copy_backward_in True (data_m v) dist (size_m v) (size_m v + 1))
          (\<lambda>d1. bind_err (slot_write d1 dist (Some val))
            (\<lambda>d2. Inr (v\<lparr>data_m := d2, size_m := size_m v + 1\<rparr>, 0 + dist)))
      else
        (case Realloc v (size_t_mul capacity_multiplier (capacity_m v)) of (tmp, v1) \<Rightarrow>
           bind_err (std_copy True tmp 0 dist (data_m v1) 0)
             (\<lambda>(tmp1, d1). bind_err (std_copy_backward True tmp1 dist (size_m v1) d1 (size_m v1 + 1))
               (\<lambda>(tmp2, d2). bind_err (slot_write d2 dist (Some val))
                 (\<lambda>d3. Inr (v1\<lparr>data_m := d3, size_m := size_m v1 + 1\<rparr>, 0 + dist))))))"

definition PopBack :: "'a SimpleVector \<Rightarrow> 'a SimpleVector" where
  "PopBack v = (if size_m v > 0 then v\<lparr>size_m := size_m v - 1\<rparr> else v)"

definition Erase :: "'a SimpleVector \<Rightarrow> Iterator \<Rightarrow> error + ('a SimpleVector \<times> Iterator)" where
  "Erase v pos =
     (if size_m v > 0 then
        (let dist = pos - 0 in
         bind_err (std_copy_in True (data_m v) (dist + 1) (size_m v) dist)
           (\<lambda>d. Inr (v\<lparr>data_m := d, size_m := size_m v - 1\<rparr>, 0 + dist)))
      else Inr (v, 0))"

definition Resize :: "'a \<Rightarrow> 'a SimpleVector \<Rightarrow> nat \<Rightarrow> error + 'a SimpleVector" where
  "Resize dflt v new_size =
     (if new_size \<le> size_m v then Inr (v\<lparr>size_m := new_size\<rparr>)
      else if new_size < capacity_m v then
        bind_err (std_fill (data_m v) (size_m v) new_size dflt)
          (\<lambda>d. Inr (v\<lparr>data_m := d, size_m := new_size\<rparr>))
      else
        (case Realloc v (size_t_mul capacity_multiplier new_size) of (tmp, v1) \<Rightarrow>
           bind_err (std_copy True tmp 0 (size_m v1) (data_m v1) 0)
             (\<lambda>(tmp1, d1). bind_err (std_fill d1 (size_m v1) new_size dflt)
               (\<lambda>d2. Inr (v1\<lparr>data_m := d2, size_m := new_size\<rparr>)))))"

definition Reserve :: "'a SimpleVector \<Rightarrow> nat \<Rightarrow> error + 'a SimpleVector" where
  "Reserve v new_capacity =
     (if capacity_m v < new_capacity then
        (case Realloc v new_capacity of (tmp, v1) \<Rightarrow>
           bind_err (std_copy False tmp 0 (size_m v1) (data_m v1) 0)
             (\<lambda>(tmp1, d1). Inr (v1\<lparr>data_m := d1\<rparr>)))
      else Inr v)"

definition Clear :: "'a SimpleVector \<Rightarrow> 'a SimpleVector" where
  "Clear v = v\<lparr>size_m := 0\<rparr>"

subsection \<open>Operations on two objects\<close>

text \<open>
  Assignment compares the addresses of its two operands, and \<^verbatim>\<open>swap\<close> and move assignment
  change both. Objects therefore live in a store, and these operations take the addresses
  \<open>this\<close> and \<open>rhs\<close>.
\<close>

type_synonym addr = nat

type_synonym 'a store = "addr \<Rightarrow> 'a SimpleVector"

definition copy_assign :: "'a store \<Rightarrow> addr \<Rightarrow> addr \<Rightarrow> error + 'a store" where
  "copy_assign s this rhs =
     (if this \<noteq> rhs then
        (if size_m (s this) > size_m (s rhs) \<or> capacity_m (s this) \<ge> capacity_m (s rhs) then
           bind_err (std_copy False (data_m (s rhs)) 0 (size_m (s rhs)) (data_m (s this)) 0)
             (\<lambda>(_, d). Inr (s(this := (s this)\<lparr>data_m := d, size_m := size_m (s rhs)\<rparr>)))
         else
           (case Realloc (s this) (capacity_m (s rhs)) of (tmp, v1) \<Rightarrow>
              bind_err (std_copy False (data_m (s rhs)) 0 (size_m (s rhs)) (data_m v1) 0)
                (\<lambda>(_, d). Inr (s(this := v1\<lparr>size_m := size_m (s rhs), data_m := d\<rparr>)))))
      else Inr s)"

definition move_assign :: "'a store \<Rightarrow> addr \<Rightarrow> addr \<Rightarrow> error + 'a store" where
  "move_assign s this rhs =
     (if this \<noteq> rhs then
        (if size_m (s this) > size_m (s rhs) \<or> capacity_m (s this) \<ge> capacity_m (s rhs) then
           bind_err (std_copy True (data_m (s rhs)) 0 (size_m (s rhs)) (data_m (s this)) 0)
             (\<lambda>(r, d). Inr (s(this := (s this)\<lparr>data_m := d, size_m := size_m (s rhs)\<rparr>,
                               rhs := (s rhs)\<lparr>data_m := r, size_m := 0\<rparr>)))
         else
           (case Realloc (s this) (capacity_m (s rhs)) of (tmp, v1) \<Rightarrow>
              bind_err (std_copy True (data_m (s rhs)) 0 (size_m (s rhs)) (data_m v1) 0)
                (\<lambda>(r, d). Inr (s(this := v1\<lparr>data_m := d, size_m := size_m (s rhs)\<rparr>,
                                  rhs := (s rhs)\<lparr>data_m := r, size_m := 0\<rparr>)))))
      else Inr s)"

definition swap :: "'a store \<Rightarrow> addr \<Rightarrow> addr \<Rightarrow> 'a store" where
  "swap s this other =
     s(this := (s this)\<lparr>data_m := data_m (s other), size_m := size_m (s other),
                        capacity_m := capacity_m (s other)\<rparr>,
       other := (s other)\<lparr>data_m := data_m (s this), size_m := size_m (s this),
                          capacity_m := capacity_m (s this)\<rparr>)"

text \<open>\<^verbatim>\<open>operator==\<close>: the size guard compares \<^verbatim>\<open>lhs.GetSize()\<close> with itself.\<close>

definition op_eq :: "'a SimpleVector \<Rightarrow> 'a SimpleVector \<Rightarrow> error + bool" where
  "op_eq lhs rhs =
     (if GetSize lhs \<noteq> GetSize lhs then Inr False
      else std_equal (data_m lhs) (begin_it lhs) (end_it lhs) (data_m rhs) (begin_it rhs) (end_it rhs))"

subsection \<open>The class invariant\<close>

text \<open>
  \<open>inv_size\<close>: the length is at most the capacity, and the capacity is the number of slots
  of the owned block. \<open>live\<close>: no slot below \<open>size_m\<close> has unspecified content. \<open>items\<close>:
  the slots below \<open>size_m\<close>, in order.
\<close>

definition inv_size :: "'a SimpleVector \<Rightarrow> bool" where
  "inv_size v \<longleftrightarrow> size_m v \<le> capacity_m v \<and> length (data_m v) = capacity_m v"

definition items :: "'a SimpleVector \<Rightarrow> 'a slot list" where
  "items v = take (size_m v) (data_m v)"

definition live :: "'a SimpleVector \<Rightarrow> bool" where
  "live v \<longleftrightarrow> None \<notin> set (items v)"

definition invariant :: "'a SimpleVector \<Rightarrow> bool" where
  "invariant v \<longleftrightarrow> inv_size v \<and> live v"

text \<open>
  The capacity that \<^verbatim>\<open>Realloc(capacity_multiplier * c)\<close> sets when the product does not wrap:
  twice \<open>c\<close>, and 1 when that is 0.
\<close>

definition grown :: "nat \<Rightarrow> nat" where
  "grown c = (if c = 0 then 1 else 2 * c)"

text \<open>A store that holds two given vectors, at the addresses 0 and 1, for concrete instances.\<close>

abbreviation two_objects :: "nat SimpleVector \<Rightarrow> nat SimpleVector \<Rightarrow> nat store" where
  "two_objects a b \<equiv> (\<lambda>_. SimpleVector_default)(0 := a, 1 := b)"

section \<open>The loops in closed form\<close>

text \<open>
  The loop functions are unfolded one step at a time, at the arguments named in each
  proof, so their defining equations are taken out of the simplifier's rules.
\<close>


declare std_copy.simps [simp del] std_copy_in.simps [simp del] std_copy_backward.simps [simp del]
  std_copy_backward_in.simps [simp del] std_fill.simps [simp del] std_equal.simps [simp del]

lemma drop_take_update_lt: "i < k \<Longrightarrow> drop k (take n (xs[i := x])) = drop k (take n xs)"
  by (simp add: drop_take)

lemma take_Suc_update: "i < length xs \<Longrightarrow> take (Suc i) (xs[i := x]) = take i xs @ [x]"
  by (simp add: take_Suc_conv_app_nth)

lemma bind_err_Inr [simp]: "bind_err (Inr x) f = f x"
  by (simp add: bind_err_def)

lemma bind_err_Inl [simp]: "bind_err (Inl e) f = Inl e"
  by (simp add: bind_err_def)

lemma std_fill_ok:
  "first \<le> last' \<Longrightarrow> last' \<le> length buf \<Longrightarrow>
   std_fill buf first last' val =
     Inr (take first buf @ replicate (last' - first) (Some val) @ drop last' buf)"
proof (induction "last' - first" arbitrary: buf first)
  case 0
  then show ?case by (simp add: std_fill.simps[of buf first])
next
  case (Suc n)
  then have lt: "first < last'" and n: "n = last' - Suc first" by arith+
  with Suc.prems have fl: "first < length buf" by arith
  have "std_fill buf first last' val = std_fill (buf[first := Some val]) (Suc first) last' val"
    using lt fl by (simp add: std_fill.simps[of buf first])
  also have "\<dots> = Inr (take (Suc first) (buf[first := Some val]) @ replicate n (Some val)
                       @ drop last' (buf[first := Some val]))"
    using Suc.hyps(1)[of "Suc first" "buf[first := Some val]"] n lt Suc.prems by simp
  also have "\<dots> = Inr (take first buf @ replicate (last' - first) (Some val) @ drop last' buf)"
    using lt fl Suc.hyps(2)[symmetric] by (simp add: take_Suc_update)
  finally show ?case .
qed

lemma std_copy_ok:
  "k \<le> n \<Longrightarrow> n \<le> length src \<Longrightarrow> n \<le> length dst \<Longrightarrow>
   std_copy mv src k n dst k =
     Inr (if mv then take k src @ replicate (n - k) None @ drop n src else src,
          take k dst @ drop k (take n src) @ drop n dst)"
proof (induction "n - k" arbitrary: src dst k)
  case 0
  then show ?case by (simp add: std_copy.simps[of mv src k])
next
  case (Suc m)
  then have lt: "k < n" and m: "m = n - Suc k" by arith+
  with Suc.prems have ks: "k < length src" and kd: "k < length dst" by arith+
  let ?src = "if mv then src[k := None] else src"
  let ?dst = "dst[k := src ! k]"
  have "std_copy mv src k n dst k = std_copy mv ?src (Suc k) n ?dst (Suc k)"
    using lt ks kd by (simp add: std_copy.simps[of mv src k])
  also have "\<dots> = Inr (if mv then take (Suc k) ?src @ replicate (n - Suc k) None @ drop n ?src else ?src,
          take (Suc k) ?dst @ drop (Suc k) (take n ?src) @ drop n ?dst)"
    using Suc.hyps(1)[of "Suc k" ?src ?dst] m lt Suc.prems by simp
  also have "\<dots> = Inr (if mv then take k src @ replicate (n - k) None @ drop n src else src,
          take k dst @ drop k (take n src) @ drop n dst)"
    using lt ks kd Suc.hyps(2)[symmetric] m
    by (simp add: take_Suc_update drop_take Cons_nth_drop_Suc[symmetric] take_Suc_conv_app_nth)
  finally show ?case .
qed


lemma drop_take_Suc: "l < length xs \<Longrightarrow> f \<le> l \<Longrightarrow> drop f (take (Suc l) xs) = drop f (take l xs) @ [xs ! l]"
  by (simp add: take_Suc_conv_app_nth)

lemma drop_take_Cons: "k < n \<Longrightarrow> k < length xs \<Longrightarrow> drop k (take n xs) = xs ! k # drop (Suc k) (take n xs)"
  using Cons_nth_drop_Suc[of k "take n xs"] by simp

lemma drop_update_same: "d < length xs \<Longrightarrow> drop d (xs[d := x]) = x # drop (Suc d) xs"
  by (simp add: upd_conv_take_nth_drop)

lemma std_copy_backward_ok:
  "first \<le> last' \<Longrightarrow> last' \<le> length src \<Longrightarrow> last' - first \<le> d_last \<Longrightarrow> d_last \<le> length dst \<Longrightarrow>
   std_copy_backward mv src first last' dst d_last =
     Inr (if mv then take first src @ replicate (last' - first) None @ drop last' src else src,
          take (d_last - (last' - first)) dst @ drop first (take last' src) @ drop d_last dst)"
proof (induction "last' - first" arbitrary: src last' dst d_last)
  case 0
  then show ?case by (simp add: std_copy_backward.simps[of mv src first])
next
  case (Suc m)
  then obtain l d where l: "last' = Suc l" and d: "d_last = Suc d"
    by (metis Suc_le_D diff_le_self)
  with Suc have fl: "first \<le> l" and m: "m = l - first" and ls: "l < length src"
    and dd: "d < length dst" and ld: "l - first \<le> d" by arith+
  let ?src = "if mv then src[l := None] else src"
  let ?dst = "dst[d := src ! l]"
  have "std_copy_backward mv src first last' dst d_last = std_copy_backward mv ?src first l ?dst d"
    using l d fl ls dd by (simp add: std_copy_backward.simps[of mv src first "Suc l"])
  also have "\<dots> = Inr (if mv then take first ?src @ replicate (l - first) None @ drop l ?src else ?src,
          take (d - (l - first)) ?dst @ drop first (take l ?src) @ drop d ?dst)"
    using Suc.hyps(1)[of l ?src d ?dst] m fl ls dd ld by simp
  also have "\<dots> = Inr (if mv then take first src @ replicate (last' - first) None @ drop last' src else src,
          take (d_last - (last' - first)) dst @ drop first (take last' src) @ drop d_last dst)"
    using l d fl ls dd ld m
    by (simp add: drop_take_Suc Suc_diff_le replicate_append_same drop_update_same)
  finally show ?case .
qed


lemma std_copy_backward_in_ok:
  "first \<le> last' \<Longrightarrow> last' < length buf \<Longrightarrow>
   std_copy_backward_in mv buf first last' (Suc last') =
     Inr (take first buf @ [if mv \<and> first < last' then None else buf ! first]
          @ drop first (take last' buf) @ drop (Suc last') buf)"
proof (induction "last' - first" arbitrary: buf last')
  case 0
  then show ?case by (simp add: std_copy_backward_in.simps[of mv buf first] id_take_nth_drop[symmetric])
next
  case (Suc m)
  then obtain l where l: "last' = Suc l"
    by (metis Suc_le_D diff_le_self)
  with Suc have fl: "first \<le> l" and m: "m = l - first" and lb: "Suc l < length buf" by arith+
  let ?b1 = "buf[Suc l := buf ! l]"
  let ?buf = "if mv then ?b1[l := None] else ?b1"
  have "std_copy_backward_in mv buf first last' (Suc last') = std_copy_backward_in mv ?buf first l (Suc l)"
    using l fl lb by (simp add: std_copy_backward_in.simps[of mv buf first "Suc l"])
  also have "\<dots> = Inr (take first ?buf @ [if mv \<and> first < l then None else ?buf ! first]
          @ drop first (take l ?buf) @ drop (Suc l) ?buf)"
    using Suc.hyps(1)[of l ?buf] m fl lb by simp
  also have "\<dots> = Inr (take first buf @ [if mv \<and> first < last' then None else buf ! first]
          @ drop first (take last' buf) @ drop (Suc last') buf)"
    using l fl lb m
    by (auto simp add: drop_take_Suc drop_update_same)
  finally show ?case .
qed

lemma std_copy_in_ok:
  "Suc d \<le> last' \<Longrightarrow> last' \<le> length buf \<Longrightarrow>
   std_copy_in mv buf (Suc d) last' d =
     Inr (take d buf @ drop (Suc d) (take last' buf)
          @ [if mv \<and> Suc d < last' then None else buf ! (last' - 1)] @ drop last' buf)"
proof (induction "last' - Suc d" arbitrary: buf d)
  case 0
  then have "last' = Suc d" by arith
  with 0 show ?case by (simp add: std_copy_in.simps[of mv buf "Suc d"] id_take_nth_drop[symmetric])
next
  case (Suc m)
  then have lt: "Suc d < last'" and m: "m = last' - Suc (Suc d)" and db: "Suc d < length buf" by arith+
  let ?b1 = "buf[d := buf ! Suc d]"
  let ?buf = "if mv then ?b1[Suc d := None] else ?b1"
  have "std_copy_in mv buf (Suc d) last' d = std_copy_in mv ?buf (Suc (Suc d)) last' (Suc d)"
    using lt db by (simp add: std_copy_in.simps[of mv buf "Suc d"])
  also have "\<dots> = Inr (take (Suc d) ?buf @ drop (Suc (Suc d)) (take last' ?buf)
          @ [if mv \<and> Suc (Suc d) < last' then None else ?buf ! (last' - 1)] @ drop last' ?buf)"
    using Suc.hyps(1)[of "Suc d" ?buf] m lt Suc.prems by simp
  also have "\<dots> = Inr (take d buf @ drop (Suc d) (take last' buf)
          @ [if mv \<and> Suc d < last' then None else buf ! (last' - 1)] @ drop last' buf)"
  proof (cases "Suc (Suc d) = last'")
    case True
    then show ?thesis
      using db Suc.prems drop_take_Cons[of "Suc d" last' buf]
      by (auto simp add: take_Suc_conv_app_nth drop_take_update_lt)
  next
    case False
    with lt have "Suc (Suc d) < last'" by arith
    then show ?thesis
      using db Suc.prems drop_take_Cons[of "Suc d" last' buf]
      by (auto simp add: take_Suc_conv_app_nth drop_take_update_lt)
  qed
  finally show ?case .
qed

lemma std_equal_ok:
  "k \<le> n1 \<Longrightarrow> n1 \<le> length b1 \<Longrightarrow> k \<le> n2 \<Longrightarrow> n2 \<le> length b2 \<Longrightarrow>
   std_equal b1 k n1 b2 k n2 = Inr (drop k (take n1 b1) = drop k (take n2 b2))"
proof (induction "n1 - k" arbitrary: k)
  case 0
  then show ?case by (auto simp add: std_equal.simps[of b1 k])
next
  case (Suc m)
  then have lt: "k < n1" and m: "m = n1 - Suc k" and kb: "k < length b1" by arith+
  show ?case
  proof (cases "k = n2")
    case True
    with lt kb Suc.prems show ?thesis by (auto simp add: std_equal.simps[of b1 n2])
  next
    case False
    with Suc.prems have lt2: "k < n2" and kb2: "k < length b2" by arith+
    have "std_equal b1 k n1 b2 k n2 =
            (if b1 ! k \<noteq> b2 ! k then Inr False else std_equal b1 (Suc k) n1 b2 (Suc k) n2)"
      using lt lt2 kb kb2 by (simp add: std_equal.simps[of b1 k])
    also have "\<dots> = (if b1 ! k \<noteq> b2 ! k then Inr False
                     else Inr (drop (Suc k) (take n1 b1) = drop (Suc k) (take n2 b2)))"
      using Suc.hyps(1)[of "Suc k"] m lt lt2 Suc.prems by simp
    also have "\<dots> = Inr (drop k (take n1 b1) = drop k (take n2 b2))"
      using drop_take_Cons[OF lt kb] drop_take_Cons[OF lt2 kb2] by simp
    finally show ?thesis .
  qed
qed

section \<open>Reallocation and appending\<close>

lemma Realloc_eq:
  "Realloc v n = (data_m v, v\<lparr>data_m := replicate (if n = 0 then 1 else n) None,
                               capacity_m := (if n = 0 then 1 else n)\<rparr>)"
  by (simp add: Realloc_def ArrayPtr_new_def Let_def)

lemma size_t_mul_exact: "a * b \<le> SIZE_MAX \<Longrightarrow> size_t_mul a b = a * b"
  by (simp add: size_t_mul_def)

lemma Realloc_grow:
  "capacity_multiplier * c \<le> SIZE_MAX \<Longrightarrow>
   Realloc v (size_t_mul capacity_multiplier c) =
     (data_m v, v\<lparr>data_m := replicate (grown c) None, capacity_m := grown c\<rparr>)"
  by (simp add: size_t_mul_exact Realloc_eq grown_def capacity_multiplier_def)

lemma replicate_update0: "0 < n \<Longrightarrow> (replicate n y)[0 := x] = x # replicate (n - 1) y"
  by (cases n) simp_all

lemma PushBack_in_place:
  "inv_size v \<Longrightarrow> size_m v < capacity_m v \<Longrightarrow>
   PushBack v x = Inr (v\<lparr>data_m := (data_m v)[size_m v := Some x], size_m := Suc (size_m v)\<rparr>)
   \<and> PushBack_move v x = Inr (v\<lparr>data_m := (data_m v)[size_m v := Some x], size_m := Suc (size_m v)\<rparr>)"
  by (simp add: PushBack_def PushBack_move_def inv_size_def slot_write_def)

lemma PushBack_grow:
  assumes "inv_size v" "\<not> size_m v < capacity_m v"
    "capacity_multiplier * capacity_m v \<le> SIZE_MAX"
  shows "PushBack v x = Inr \<lparr>data_m = data_m v @ Some x # replicate (grown (capacity_m v) - Suc (size_m v)) None,
            size_m = Suc (size_m v), capacity_m = grown (capacity_m v)\<rparr>
    \<and> PushBack_move v x = Inr \<lparr>data_m = data_m v @ Some x # replicate (grown (capacity_m v) - Suc (size_m v)) None,
            size_m = Suc (size_m v), capacity_m = grown (capacity_m v)\<rparr>"
proof -
  from assms have sz: "size_m v = capacity_m v" and len: "length (data_m v) = capacity_m v"
    by (auto simp: inv_size_def)
  let ?nc = "grown (capacity_m v)"
  have nc: "capacity_m v < ?nc" by (simp add: grown_def)
  have cp: "std_copy mv (data_m v) 0 (capacity_m v) (replicate ?nc None) 0 =
     Inr (if mv then replicate (capacity_m v) None else data_m v,
          data_m v @ replicate (?nc - capacity_m v) None)" for mv
    using std_copy_ok[of 0 "capacity_m v" "data_m v" "replicate ?nc None" mv] len nc
    by simp
  have upd: "(data_m v @ replicate (?nc - capacity_m v) None)[capacity_m v := Some x]
      = data_m v @ Some x # replicate (?nc - Suc (capacity_m v)) None"
    using len nc by (simp add: list_update_append replicate_update0)
  show ?thesis
    using sz len nc cp upd Realloc_grow[OF assms(3), of v]
    by (simp add: PushBack_def PushBack_move_def slot_write_def)
qed


lemma items_in_place:
  "inv_size v \<Longrightarrow> size_m v < capacity_m v \<Longrightarrow>
   items (v\<lparr>data_m := (data_m v)[size_m v := Some x], size_m := Suc (size_m v)\<rparr>) = items v @ [Some x]"
  by (simp add: items_def inv_size_def take_Suc_update)

text \<open>
  Claim C5. On every vector that satisfies the size invariant (and whose doubled capacity
  is a \<^verbatim>\<open>size_t\<close>), both \<^verbatim>\<open>PushBack\<close> overloads
  return the same vector: its length is one more, its elements are the old ones in order
  followed by the new item (which is at index old length), and the capacity is unchanged
  when there was room, exactly 1 when the capacity was 0, and exactly twice the old
  capacity when the vector was full.
\<close>

theorem PushBack_appends:
  assumes "inv_size v" "capacity_multiplier * capacity_m v \<le> SIZE_MAX"
  shows "\<exists>v'. PushBack v item = Inr v' \<and> PushBack_move v item = Inr v'
      \<and> size_m v' = size_m v + 1
      \<and> items v' = items v @ [Some item]
      \<and> subscript v' (size_m v) = Inr (Some item)
      \<and> capacity_m v' = (if size_m v < capacity_m v then capacity_m v
                          else if capacity_m v = 0 then 1 else 2 * capacity_m v)
      \<and> inv_size v'"
proof (cases "size_m v < capacity_m v")
  case True
  let ?v' = "v\<lparr>data_m := (data_m v)[size_m v := Some item], size_m := Suc (size_m v)\<rparr>"
  have "PushBack v item = Inr ?v'" "PushBack_move v item = Inr ?v'"
    using PushBack_in_place[OF assms(1) True] by simp_all
  moreover have "items ?v' = items v @ [Some item]"
    using items_in_place[OF assms(1) True] .
  moreover have "subscript ?v' (size_m v) = Inr (Some item)" "inv_size ?v'"
    using assms(1) True by (simp_all add: subscript_def slot_read_def inv_size_def)
  ultimately show ?thesis using True by simp
next
  case False
  let ?nc = "grown (capacity_m v)"
  let ?v' = "\<lparr>data_m = data_m v @ Some item # replicate (?nc - Suc (size_m v)) None,
            size_m = Suc (size_m v), capacity_m = ?nc\<rparr>"
  from assms(1) False have sz: "size_m v = capacity_m v" and len: "length (data_m v) = capacity_m v"
    by (auto simp: inv_size_def)
  have nc: "capacity_m v < ?nc" by (simp add: grown_def)
  have "PushBack v item = Inr ?v'" "PushBack_move v item = Inr ?v'"
    using PushBack_grow[OF assms(1) False assms(2)] by simp_all
  moreover have "items ?v' = items v @ [Some item]"
    using sz len by (simp add: items_def)
  moreover have "subscript ?v' (size_m v) = Inr (Some item)"
    using sz len by (simp add: subscript_def slot_read_def nth_append)
  moreover have "inv_size ?v'"
    using sz len nc by (simp add: inv_size_def)
  moreover have "capacity_m ?v' = (if capacity_m v = 0 then 1 else 2 * capacity_m v)"
    by (simp add: grown_def)
  ultimately show ?thesis using False by simp
qed

theorem PushBack_appends_witness:
  "inv_size \<lparr>data_m = [Some (1::nat), Some 2], size_m = 2, capacity_m = 2\<rparr> \<and>
   capacity_multiplier * capacity_m \<lparr>data_m = [Some (1::nat), Some 2], size_m = 2, capacity_m = 2\<rparr>
     \<le> SIZE_MAX \<and>
   (\<exists>v'. PushBack \<lparr>data_m = [Some (1::nat), Some 2], size_m = 2, capacity_m = 2\<rparr> 3 = Inr v'
      \<and> PushBack_move \<lparr>data_m = [Some (1::nat), Some 2], size_m = 2, capacity_m = 2\<rparr> 3 = Inr v'
      \<and> size_m v' = 3 \<and> items v' = [Some 1, Some 2, Some 3]
      \<and> subscript v' 2 = Inr (Some 3) \<and> capacity_m v' = 4 \<and> inv_size v')"
proof -
  have h: "inv_size \<lparr>data_m = [Some (1::nat), Some 2], size_m = 2, capacity_m = 2\<rparr>"
    by (simp add: inv_size_def)
  have r: "capacity_multiplier * capacity_m \<lparr>data_m = [Some (1::nat), Some 2], size_m = 2, capacity_m = 2\<rparr>
     \<le> SIZE_MAX"
    by (simp add: capacity_multiplier_def SIZE_MAX_def)
  show ?thesis
    using h r PushBack_appends[OF h r, of 3] by (simp add: items_def)
qed

section \<open>Checked access\<close>

text \<open>
  Claim C7. \<^verbatim>\<open>At(index)\<close>, in its const and non-const overloads, fails with
  \<^verbatim>\<open>std::out_of_range\<close> and a message naming the function exactly when the index is at least
  the length, for empty and non-empty vectors alike; below the length it is the unchecked
  \<^verbatim>\<open>operator[]\<close> and returns the element at that index. \<^verbatim>\<open>At\<close> assigns to no member: the
  model has no successor state, the vector is the one passed in.
\<close>

theorem At_checked:
  "(size_m v \<le> index \<longrightarrow>
      At v index = Inl (out_of_range ''index out of range in SimpleVector::At'')
    \<and> At_const v index = Inl (out_of_range ''index out of range in SimpleVector::At(const Type)''))
   \<and> (index < size_m v \<longrightarrow>
      At v index = subscript v index \<and> At_const v index = subscript v index
    \<and> (\<forall>msg. At v index \<noteq> Inl (out_of_range msg))
    \<and> (\<forall>msg. At_const v index \<noteq> Inl (out_of_range msg)))
   \<and> (index < size_m v \<and> inv_size v \<longrightarrow>
      At v index = Inr (items v ! index) \<and> At_const v index = Inr (items v ! index))"
  by (auto simp add: At_def At_const_def subscript_def slot_read_def inv_size_def items_def)

theorem At_checked_witness:
  "At \<lparr>data_m = [Some (1::nat), Some 2, None], size_m = 2, capacity_m = 3\<rparr> 2
     = Inl (out_of_range ''index out of range in SimpleVector::At'')
   \<and> At (SimpleVector_default :: nat SimpleVector) 0
     = Inl (out_of_range ''index out of range in SimpleVector::At'')
   \<and> At \<lparr>data_m = [Some (1::nat), Some 2, None], size_m = 2, capacity_m = 3\<rparr> 1 = Inr (Some 2)
   \<and> At_const \<lparr>data_m = [Some (1::nat), Some 2, None], size_m = 2, capacity_m = 3\<rparr> 1 = Inr (Some 2)"
  using At_checked[of "\<lparr>data_m = [Some (1::nat), Some 2, None], size_m = 2, capacity_m = 3\<rparr>" 2]
    At_checked[of "SimpleVector_default :: nat SimpleVector" 0]
    At_checked[of "\<lparr>data_m = [Some (1::nat), Some 2, None], size_m = 2, capacity_m = 3\<rparr>" 1]
  by (simp add: inv_size_def items_def SimpleVector_default_def subscript_def slot_read_def)

section \<open>Insertion\<close>

lemma std_copy_backward_empty [simp]: "std_copy_backward mv src k k dst d = Inr (src, dst)"
  by (simp add: std_copy_backward.simps[of mv src k k])

lemma std_copy_backward_in_empty [simp]: "std_copy_backward_in mv buf k k d = Inr buf"
  by (simp add: std_copy_backward_in.simps[of mv buf k k])

lemma update_middle: "length xs = k \<Longrightarrow> (xs @ y # ys)[k := x] = xs @ x # ys"
  by (simp add: list_update_append)

lemma Insert_in_place:
  assumes "inv_size v" "pos \<le> size_m v" "size_m v < capacity_m v"
  shows "Insert v pos x = Inr (v\<lparr>data_m := take pos (data_m v) @ Some x # drop pos (items v)
                                     @ drop (Suc (size_m v)) (data_m v), size_m := Suc (size_m v)\<rparr>, pos)"
    and "Insert_move v pos x = Inr (v\<lparr>data_m := take pos (data_m v) @ Some x # drop pos (items v)
                                     @ drop (Suc (size_m v)) (data_m v), size_m := Suc (size_m v)\<rparr>, pos)"
proof -
  from assms have len: "size_m v < length (data_m v)" by (simp add: inv_size_def)
  have sh: "std_copy_backward_in mv (data_m v) pos (size_m v) (Suc (size_m v)) =
     Inr (take pos (data_m v) @ (if mv \<and> pos < size_m v then None else data_m v ! pos)
          # drop pos (items v) @ drop (Suc (size_m v)) (data_m v))" for mv
    using std_copy_backward_in_ok[OF assms(2) len, of mv] by (simp add: items_def)
  have wr: "slot_write (take pos (data_m v) @ y # rest) pos (Some x)
      = Inr (take pos (data_m v) @ Some x # rest)" for y rest
    using assms(2) len by (simp add: slot_write_def update_middle)
  show "Insert v pos x = Inr (v\<lparr>data_m := take pos (data_m v) @ Some x # drop pos (items v)
                                     @ drop (Suc (size_m v)) (data_m v), size_m := Suc (size_m v)\<rparr>, pos)"
    using assms(3) sh[of False] wr by (simp add: Insert_def)
  show "Insert_move v pos x = Inr (v\<lparr>data_m := take pos (data_m v) @ Some x # drop pos (items v)
                                     @ drop (Suc (size_m v)) (data_m v), size_m := Suc (size_m v)\<rparr>, pos)"
    using assms(3) sh[of True] wr by (simp add: Insert_move_def)
qed

lemma Insert_move_grow:
  assumes "inv_size v" "pos \<le> size_m v" "\<not> size_m v < capacity_m v"
    "capacity_multiplier * capacity_m v \<le> SIZE_MAX"
  shows "Insert_move v pos x =
     Inr (\<lparr>data_m = take pos (data_m v) @ Some x # drop pos (data_m v)
                     @ replicate (grown (capacity_m v) - Suc (size_m v)) None,
           size_m = Suc (size_m v), capacity_m = grown (capacity_m v)\<rparr>, pos)"
proof -
  from assms have sz: "size_m v = capacity_m v" and len: "length (data_m v) = capacity_m v"
    by (auto simp: inv_size_def)
  let ?n = "capacity_m v"
  let ?nc = "grown ?n"
  let ?tmp1 = "replicate pos None @ drop pos (data_m v)"
  let ?d1 = "take pos (data_m v) @ replicate (?nc - pos) None"
  have nc: "?n < ?nc" by (simp add: grown_def)
  have pn: "pos \<le> ?n" using assms(2) sz by simp
  have c1: "std_copy True (data_m v) 0 pos (replicate ?nc None) 0 = Inr (?tmp1, ?d1)"
    using std_copy_ok[of 0 pos "data_m v" "replicate ?nc None" True] len nc pn by simp
  have c2: "std_copy_backward True ?tmp1 pos ?n ?d1 (Suc ?n) =
     Inr (replicate ?n None,
          take pos (data_m v) @ None # drop pos (data_m v) @ replicate (?nc - Suc ?n) None)"
    using std_copy_backward_ok[of pos ?n ?tmp1 "Suc ?n" ?d1 True] len nc pn
    by (simp add: Suc_diff_le replicate_add[symmetric] take_Suc_conv_app_nth
        min_absorb2 )
  have wr: "slot_write (take pos (data_m v) @ y # rest) pos (Some x)
      = Inr (take pos (data_m v) @ Some x # rest)" for y rest
    using pn len by (simp add: slot_write_def update_middle)
  show ?thesis
    using sz c1 c2 wr assms(3) Realloc_grow[OF assms(4), of v]
    by (simp add: Insert_move_def)
qed


lemma length_items: "inv_size v \<Longrightarrow> length (items v) = size_m v"
  by (simp add: items_def inv_size_def)

lemma items_Insert:
  "inv_size v \<Longrightarrow> pos \<le> size_m v \<Longrightarrow>
   take (Suc (size_m v)) (take pos (data_m v) @ Some x # drop pos (items v) @ rest)
     = take pos (items v) @ Some x # drop pos (items v)"
  by (simp add: items_def inv_size_def min_absorb2 Suc_diff_le)

text \<open>
  The move overload, and the copy overload while there is room, insert as intended: the
  elements from \<open>pos\<close> on move one slot towards the end, in order, the value is at
  \<open>pos\<close>, and the returned iterator is \<open>pos\<close> in the (possibly new) block.
\<close>

lemma Insert_move_shifts:
  assumes "inv_size v" "pos \<le> size_m v" "capacity_multiplier * capacity_m v \<le> SIZE_MAX"
  shows "\<exists>v'. Insert_move v pos x = Inr (v', pos)
      \<and> size_m v' = size_m v + 1
      \<and> items v' = take pos (items v) @ Some x # drop pos (items v)
      \<and> capacity_m v' = (if size_m v < capacity_m v then capacity_m v else grown (capacity_m v))
      \<and> inv_size v'"
proof (cases "size_m v < capacity_m v")
  case True
  show ?thesis
    using Insert_in_place(2)[OF assms(1,2) True, of x] items_Insert[OF assms(1,2)] assms(1,2) True
      length_items[OF assms(1)]
    by (simp add: items_def[of "_\<lparr>data_m := _, size_m := _\<rparr>"] inv_size_def)
next
  case False
  from assms(1) False have sz: "size_m v = capacity_m v" and len: "length (data_m v) = capacity_m v"
    by (auto simp: inv_size_def)
  have nc: "capacity_m v < grown (capacity_m v)" by (simp add: grown_def)
  have it: "items v = data_m v" using sz len by (simp add: items_def)
  show ?thesis
    using Insert_move_grow[OF assms(1,2) False assms(3), of x] items_Insert[OF assms(1,2)]
      assms(1,2) False sz len nc
    by (simp add: items_def[of "\<lparr>data_m = _, size_m = _, capacity_m = _\<rparr>"] it inv_size_def)
qed

lemma Insert_copy_in_place_shifts:
  assumes "inv_size v" "pos \<le> size_m v" "size_m v < capacity_m v"
  shows "\<exists>v'. Insert v pos x = Inr (v', pos)
      \<and> size_m v' = size_m v + 1
      \<and> items v' = take pos (items v) @ Some x # drop pos (items v)
      \<and> capacity_m v' = capacity_m v
      \<and> inv_size v'"
  using Insert_in_place(1)[OF assms, of x] items_Insert[OF assms(1,2)] assms
    length_items[OF assms(1)]
  by (simp add: items_def[of "_\<lparr>data_m := _, size_m := _\<rparr>"] inv_size_def)

text \<open>
  Claim C1. The claim asks both overloads of \<^verbatim>\<open>Insert\<close> to shift and insert also when the
  block must grow. At the claim's own example, \<open>[1,2,3]\<close> with length and capacity 3,
  position \<^verbatim>\<open>begin()\<close> and value 0, the copy overload steps below the start of the new block
  (its \<^verbatim>\<open>copy_backward\<close> ends at \<^verbatim>\<open>data_.Get() + 1\<close>), while the move overload, which ends the
  same copy at \<^verbatim>\<open>data_.Get() + size_ + 1\<close>, yields \<open>[0,1,2,3]\<close> and an iterator to the 0.
\<close>

theorem Insert_copy_growth_fails:
  "Insert \<lparr>data_m = [Some (1::nat), Some 2, Some 3], size_m = 3, capacity_m = 3\<rparr> 0 0
     = Inl undefined_behaviour
   \<and> Insert_move \<lparr>data_m = [Some (1::nat), Some 2, Some 3], size_m = 3, capacity_m = 3\<rparr> 0 0
     = Inr (\<lparr>data_m = [Some 0, Some 1, Some 2, Some 3, None, None], size_m = 4, capacity_m = 6\<rparr>, 0)"
proof -
  have m: "size_t_mul capacity_multiplier 3 = 6"
    by (simp add: size_t_mul_exact capacity_multiplier_def SIZE_MAX_def)
  have "Insert \<lparr>data_m = [Some (1::nat), Some 2, Some 3], size_m = 3, capacity_m = 3\<rparr> 0 0
     = Inl undefined_behaviour"
    apply (simp add: Insert_def m)
    apply code_simp
    done
  moreover
  have "Insert_move \<lparr>data_m = [Some (1::nat), Some 2, Some 3], size_m = 3, capacity_m = 3\<rparr> 0 0
     = Inr (\<lparr>data_m = [Some 0, Some 1, Some 2, Some 3, None, None], size_m = 4, capacity_m = 6\<rparr>, 0)"
    apply (simp add: Insert_move_def m)
    apply code_simp
    done
  ultimately show ?thesis by (rule conjI)
qed

text \<open>
  Claim C9. Inserting at \<^verbatim>\<open>end()\<close> is \<^verbatim>\<open>PushBack\<close>: for every vector and value the copy
  overloads agree, and so do the move overloads, on the resulting block, length and
  capacity (and on failure); on a vector that satisfies the size invariant (and whose
  doubled capacity is a \<^verbatim>\<open>size_t\<close>) all four calls return the same vector, and \<^verbatim>\<open>Insert\<close>
  returns the old \<^verbatim>\<open>end()\<close>.
\<close>

theorem Insert_end_is_PushBack:
  "map_sum id fst (Insert v (end_it v) x) = PushBack v x
   \<and> map_sum id fst (Insert_move v (end_it v) x) = PushBack_move v x
   \<and> (inv_size v \<and> capacity_multiplier * capacity_m v \<le> SIZE_MAX \<longrightarrow>
        (\<exists>v'. PushBack v x = Inr v' \<and> Insert v (end_it v) x = Inr (v', end_it v)
            \<and> PushBack_move v x = Inr v' \<and> Insert_move v (end_it v) x = Inr (v', end_it v)))"
proof -
  have a: "map_sum id fst (Insert v (end_it v) x) = PushBack v x"
    by (simp add: Insert_def PushBack_def end_it_def Realloc_eq bind_err_def Let_def
        split: sum.splits prod.splits)
  have b: "map_sum id fst (Insert_move v (end_it v) x) = PushBack_move v x"
    by (simp add: Insert_move_def PushBack_move_def end_it_def Realloc_eq bind_err_def Let_def
        split: sum.splits prod.splits)
  have c: "\<exists>v'. PushBack v x = Inr v' \<and> Insert v (end_it v) x = Inr (v', end_it v)
            \<and> PushBack_move v x = Inr v' \<and> Insert_move v (end_it v) x = Inr (v', end_it v)"
    if inv: "inv_size v" and r: "capacity_multiplier * capacity_m v \<le> SIZE_MAX"
  proof -
    obtain v' where p: "PushBack v x = Inr v'" "PushBack_move v x = Inr v'"
      using PushBack_in_place[OF inv, of x] PushBack_grow[OF inv _ r, of x]
      by (cases "size_m v < capacity_m v") auto
    have "snd r = end_it v" if "Insert v (end_it v) x = Inr r" for r
      using that by (auto simp add: Insert_def end_it_def Realloc_eq bind_err_def Let_def
        split: sum.splits prod.splits if_splits)
    moreover have "snd r = end_it v" if "Insert_move v (end_it v) x = Inr r" for r
      using that by (auto simp add: Insert_move_def end_it_def Realloc_eq bind_err_def Let_def
        split: sum.splits prod.splits if_splits)
    ultimately show ?thesis
      using a b p by (cases "Insert v (end_it v) x"; cases "Insert_move v (end_it v) x") auto
  qed
  from a b c show ?thesis by blast
qed

theorem Insert_end_is_PushBack_witness:
  "inv_size \<lparr>data_m = [Some (1::nat), Some 2], size_m = 2, capacity_m = 2\<rparr> \<and>
   capacity_multiplier * capacity_m \<lparr>data_m = [Some (1::nat), Some 2], size_m = 2, capacity_m = 2\<rparr>
     \<le> SIZE_MAX \<and>
   (\<exists>v'. PushBack \<lparr>data_m = [Some (1::nat), Some 2], size_m = 2, capacity_m = 2\<rparr> 3 = Inr v'
      \<and> Insert \<lparr>data_m = [Some (1::nat), Some 2], size_m = 2, capacity_m = 2\<rparr>
           (end_it \<lparr>data_m = [Some (1::nat), Some 2], size_m = 2, capacity_m = 2\<rparr>) 3
         = Inr (v', end_it \<lparr>data_m = [Some (1::nat), Some 2], size_m = 2, capacity_m = 2\<rparr>)
      \<and> PushBack_move \<lparr>data_m = [Some (1::nat), Some 2], size_m = 2, capacity_m = 2\<rparr> 3 = Inr v'
      \<and> Insert_move \<lparr>data_m = [Some (1::nat), Some 2], size_m = 2, capacity_m = 2\<rparr>
           (end_it \<lparr>data_m = [Some (1::nat), Some 2], size_m = 2, capacity_m = 2\<rparr>) 3
         = Inr (v', end_it \<lparr>data_m = [Some (1::nat), Some 2], size_m = 2, capacity_m = 2\<rparr>))"
proof -
  have h: "inv_size \<lparr>data_m = [Some (1::nat), Some 2], size_m = 2, capacity_m = 2\<rparr>"
    by (simp add: inv_size_def)
  have r: "capacity_multiplier * capacity_m \<lparr>data_m = [Some (1::nat), Some 2], size_m = 2, capacity_m = 2\<rparr>
     \<le> SIZE_MAX"
    by (simp add: capacity_multiplier_def SIZE_MAX_def)
  show ?thesis
    using h r Insert_end_is_PushBack[of "\<lparr>data_m = [Some (1::nat), Some 2], size_m = 2, capacity_m = 2\<rparr>" 3]
    by blast
qed

section \<open>Erasure\<close>

lemma Erase_shifts:
  assumes "inv_size v" "pos < size_m v"
  shows "Erase v pos =
     Inr (v\<lparr>data_m := take pos (data_m v) @ drop (Suc pos) (items v)
                  @ (if Suc pos < size_m v then None else data_m v ! (size_m v - 1))
                  # drop (size_m v) (data_m v),
             size_m := size_m v - 1\<rparr>, pos)"
proof -
  from assms have len: "size_m v \<le> length (data_m v)" by (simp add: inv_size_def)
  from assms(2) have le: "Suc pos \<le> size_m v" by simp
  show ?thesis
    using std_copy_in_ok[OF le len, of True] assms(2)
    by (simp add: Erase_def items_def)
qed

text \<open>
  Claim C6. \<^verbatim>\<open>Erase\<close> on a vector of length 0 changes nothing and returns \<^verbatim>\<open>begin()\<close>. On a
  vector that satisfies the size invariant, with a position in \<open>[begin, end)\<close>, it returns
  the same position, the length is one less, the capacity is the same, the elements are
  the old ones without the one at the position, in order, and the returned iterator
  points at the element that followed the erased one, or is \<^verbatim>\<open>end()\<close> when the last element
  was erased. Erasing the second element of \<open>[1,2,3]\<close> leaves \<open>[1,3]\<close> and the iterator
  points at the 3.
\<close>

theorem Erase_removes:
  "(size_m v = 0 \<longrightarrow> Erase v pos = Inr (v, begin_it v))
   \<and> (inv_size v \<and> begin_it v \<le> pos \<and> pos < end_it v \<longrightarrow>
        (\<exists>v'. Erase v pos = Inr (v', pos)
           \<and> size_m v' = size_m v - 1
           \<and> capacity_m v' = capacity_m v
           \<and> items v' = take pos (items v) @ drop (Suc pos) (items v)
           \<and> (Suc pos < size_m v \<longrightarrow> subscript v' pos = Inr (items v ! Suc pos))
           \<and> (Suc pos = size_m v \<longrightarrow> pos = end_it v')
           \<and> inv_size v'))
   \<and> Erase \<lparr>data_m = [Some (1::nat), Some 2, Some 3], size_m = 3, capacity_m = 3\<rparr> 1
        = Inr (\<lparr>data_m = [Some 1, Some 3, None], size_m = 2, capacity_m = 3\<rparr>, 1)
   \<and> subscript \<lparr>data_m = [Some (1::nat), Some 3, None], size_m = 2, capacity_m = 3\<rparr> 1
        = Inr (Some 3)"
proof -
  have a: "size_m v = 0 \<longrightarrow> Erase v pos = Inr (v, begin_it v)"
    by (simp add: Erase_def begin_it_def)
  have b: "\<exists>v'. Erase v pos = Inr (v', pos)
           \<and> size_m v' = size_m v - 1
           \<and> capacity_m v' = capacity_m v
           \<and> items v' = take pos (items v) @ drop (Suc pos) (items v)
           \<and> (Suc pos < size_m v \<longrightarrow> subscript v' pos = Inr (items v ! Suc pos))
           \<and> (Suc pos = size_m v \<longrightarrow> pos = end_it v')
           \<and> inv_size v'"
    if inv: "inv_size v" and p: "pos < size_m v"
  proof -
    let ?d = "take pos (data_m v) @ drop (Suc pos) (items v)
                  @ (if Suc pos < size_m v then None else data_m v ! (size_m v - 1))
                  # drop (size_m v) (data_m v)"
    let ?v' = "v\<lparr>data_m := ?d, size_m := size_m v - 1\<rparr>"
    from inv p have len: "size_m v \<le> length (data_m v)" and cap: "length (data_m v) = capacity_m v"
      by (simp_all add: inv_size_def)
    have li: "length (items v) = size_m v" using length_items[OF inv] .
    have e: "Erase v pos = Inr (?v', pos)" using Erase_shifts[OF inv p] .
    have it: "items ?v' = take pos (items v) @ drop (Suc pos) (items v)"
      using p len li by (simp add: items_def min_absorb2)
    have nx: "subscript ?v' pos = Inr (items v ! Suc pos)" if "Suc pos < size_m v"
      using that len li by (simp add: subscript_def slot_read_def nth_append min_absorb2 items_def)
    have iv: "inv_size ?v'"
      using p len li cap by (simp add: inv_size_def min_absorb2)
    show ?thesis
      using e it nx iv p by (auto simp add: end_it_def)
  qed
  have c: "Erase \<lparr>data_m = [Some (1::nat), Some 2, Some 3], size_m = 3, capacity_m = 3\<rparr> 1
        = Inr (\<lparr>data_m = [Some 1, Some 3, None], size_m = 2, capacity_m = 3\<rparr>, 1)"
    by code_simp
  have d: "subscript \<lparr>data_m = [Some (1::nat), Some 3, None], size_m = 2, capacity_m = 3\<rparr> 1
        = Inr (Some 3)"
    by (simp add: subscript_def slot_read_def)
  from a b c d show ?thesis by (simp add: begin_it_def end_it_def)
qed

theorem Erase_removes_witness:
  "Erase (SimpleVector_reserve 2 :: nat SimpleVector) 0 = Inr (SimpleVector_reserve 2, 0)
   \<and> (\<exists>v'. Erase \<lparr>data_m = [Some (1::nat), Some 2, Some 3, None], size_m = 3, capacity_m = 4\<rparr> 0 = Inr (v', 0)
          \<and> size_m v' = 2 \<and> capacity_m v' = 4 \<and> items v' = [Some 2, Some 3]
          \<and> subscript v' 0 = Inr (Some 2) \<and> inv_size v')
   \<and> (\<exists>v'. Erase \<lparr>data_m = [Some (1::nat), Some 2, Some 3, None], size_m = 3, capacity_m = 4\<rparr> 2 = Inr (v', 2)
          \<and> size_m v' = 2 \<and> capacity_m v' = 4 \<and> items v' = [Some 1, Some 2]
          \<and> end_it v' = 2 \<and> inv_size v')"
  using Erase_removes[of "SimpleVector_reserve 2 :: nat SimpleVector" 0]
    Erase_removes[of "\<lparr>data_m = [Some (1::nat), Some 2, Some 3, None], size_m = 3, capacity_m = 4\<rparr>" 0]
    Erase_removes[of "\<lparr>data_m = [Some (1::nat), Some 2, Some 3, None], size_m = 3, capacity_m = 4\<rparr>" 2]
  by (simp add: SimpleVector_reserve_def begin_it_def end_it_def inv_size_def items_def)

section \<open>Equality\<close>

lemma op_eq_items:
  assumes "inv_size lhs" "inv_size rhs"
  shows "op_eq lhs rhs = Inr (items lhs = items rhs)"
proof -
  from assms have "size_m lhs \<le> length (data_m lhs)" "size_m rhs \<le> length (data_m rhs)"
    by (simp_all add: inv_size_def)
  then show ?thesis
    using std_equal_ok[of 0 "size_m lhs" "data_m lhs" "size_m rhs" "data_m rhs"]
    by (simp add: op_eq_def begin_it_def end_it_def items_def)
qed

text \<open>
  Claim C3. On vectors that satisfy the size invariant, \<^verbatim>\<open>operator==\<close> returns true exactly
  when the lengths are equal and the elements are equal index by index; when the lengths
  differ it returns false, although its guard compares \<^verbatim>\<open>lhs.GetSize()\<close> with itself, because
  \<^verbatim>\<open>std::equal\<close> is given both end iterators.
\<close>

theorem op_eq_correct:
  assumes "inv_size lhs" "inv_size rhs"
  shows "op_eq lhs rhs =
           Inr (size_m lhs = size_m rhs \<and> (\<forall>i < size_m lhs. items lhs ! i = items rhs ! i))
         \<and> (size_m lhs \<noteq> size_m rhs \<longrightarrow> op_eq lhs rhs = Inr False)"
proof -
  have "items lhs = items rhs \<longleftrightarrow>
          size_m lhs = size_m rhs \<and> (\<forall>i < size_m lhs. items lhs ! i = items rhs ! i)"
    using length_items[OF assms(1)] length_items[OF assms(2)]
    by (auto simp add: list_eq_iff_nth_eq)
  then show ?thesis using op_eq_items[OF assms] by auto
qed

theorem op_eq_correct_witness:
  "inv_size \<lparr>data_m = [Some (1::nat), Some 2, Some 3], size_m = 2, capacity_m = 3\<rparr>
   \<and> inv_size \<lparr>data_m = [Some (1::nat), Some 2, Some 3], size_m = 3, capacity_m = 3\<rparr>
   \<and> op_eq \<lparr>data_m = [Some (1::nat), Some 2, Some 3], size_m = 2, capacity_m = 3\<rparr>
            \<lparr>data_m = [Some (1::nat), Some 2, Some 3], size_m = 3, capacity_m = 3\<rparr> = Inr False
   \<and> op_eq \<lparr>data_m = [Some (1::nat), Some 2, Some 3], size_m = 2, capacity_m = 3\<rparr>
            \<lparr>data_m = [Some (1::nat), Some 2, Some 3], size_m = 2, capacity_m = 3\<rparr> = Inr True"
proof -
  have h1: "inv_size \<lparr>data_m = [Some (1::nat), Some 2, Some 3], size_m = 2, capacity_m = 3\<rparr>"
    and h2: "inv_size \<lparr>data_m = [Some (1::nat), Some 2, Some 3], size_m = 3, capacity_m = 3\<rparr>"
    by (simp_all add: inv_size_def)
  show ?thesis
    using h1 h2 op_eq_correct[OF h1 h2] op_eq_correct[OF h1 h1]
    by simp
qed

section \<open>Copy assignment\<close>

lemma copy_assign_reuse:
  assumes "this \<noteq> rhs" "inv_size (s this)" "inv_size (s rhs)"
    "size_m (s this) > size_m (s rhs) \<or> capacity_m (s this) \<ge> capacity_m (s rhs)"
  shows "copy_assign s this rhs =
     Inr (s(this := (s this)\<lparr>data_m := items (s rhs) @ drop (size_m (s rhs)) (data_m (s this)),
                              size_m := size_m (s rhs)\<rparr>))"
proof -
  from assms have "size_m (s rhs) \<le> length (data_m (s rhs))" "size_m (s rhs) \<le> length (data_m (s this))"
    by (auto simp add: inv_size_def)
  then show ?thesis
    using std_copy_ok[of 0 "size_m (s rhs)" "data_m (s rhs)" "data_m (s this)" False] assms(1,4)
    by (simp add: copy_assign_def items_def)
qed

lemma copy_assign_realloc:
  assumes "this \<noteq> rhs" "inv_size (s this)" "inv_size (s rhs)"
    "\<not> (size_m (s this) > size_m (s rhs) \<or> capacity_m (s this) \<ge> capacity_m (s rhs))"
  shows "copy_assign s this rhs =
     Inr (s(this := (s this)\<lparr>capacity_m := capacity_m (s rhs), size_m := size_m (s rhs),
                     data_m := items (s rhs) @ replicate (capacity_m (s rhs) - size_m (s rhs)) None\<rparr>))"
proof -
  from assms have "size_m (s rhs) \<le> length (data_m (s rhs))" "size_m (s rhs) \<le> capacity_m (s rhs)"
    "capacity_m (s rhs) \<noteq> 0"
    by (auto simp add: inv_size_def)
  then show ?thesis
    using std_copy_ok[of 0 "size_m (s rhs)" "data_m (s rhs)" "replicate (capacity_m (s rhs)) None" False]
      assms(1,4)
    by (simp add: copy_assign_def items_def Realloc_eq)
qed

text \<open>
  Claim C4. For two different objects that satisfy the size invariant, copy assignment
  returns, changes nothing but the destination, and leaves the destination with the
  source's length and the source's elements in order. When the destination's length exceeds
  the source's, or its capacity is at least the source's, the destination keeps its block:
  the capacity is unchanged and only the first \<open>size\<close> slots of the source are written over
  it. Otherwise the capacity changes, to exactly the source's capacity, and the block is a
  new one holding the copied elements. Assigning an object to itself changes nothing.
\<close>

theorem copy_assign_correct:
  assumes "this \<noteq> rhs" "inv_size (s this)" "inv_size (s rhs)"
  shows "(\<exists>s'. copy_assign s this rhs = Inr s'
      \<and> (\<forall>a. a \<noteq> this \<longrightarrow> s' a = s a)
      \<and> size_m (s' this) = size_m (s rhs)
      \<and> items (s' this) = items (s rhs)
      \<and> inv_size (s' this)
      \<and> (if size_m (s this) > size_m (s rhs) \<or> capacity_m (s this) \<ge> capacity_m (s rhs)
         then capacity_m (s' this) = capacity_m (s this)
            \<and> data_m (s' this) = items (s rhs) @ drop (size_m (s rhs)) (data_m (s this))
         else capacity_m (s' this) = capacity_m (s rhs)
            \<and> capacity_m (s' this) \<noteq> capacity_m (s this)
            \<and> data_m (s' this) = items (s rhs) @ replicate (capacity_m (s rhs) - size_m (s rhs)) None))
    \<and> copy_assign s this this = Inr s"
proof -
  have li: "length (items (s rhs)) = size_m (s rhs)" using length_items[OF assms(3)] .
  have self: "copy_assign s this this = Inr s" by (simp add: copy_assign_def)
  show ?thesis
  proof (cases "size_m (s this) > size_m (s rhs) \<or> capacity_m (s this) \<ge> capacity_m (s rhs)")
    case True
    have "size_m (s rhs) \<le> capacity_m (s this)"
      using True assms(2,3) by (auto simp add: inv_size_def)
    then show ?thesis
      using copy_assign_reuse[OF assms True] True li assms(2) self
      by (simp add: items_def[of "_\<lparr>data_m := _, size_m := _\<rparr>"] inv_size_def)
  next
    case False
    then show ?thesis
      using copy_assign_realloc[OF assms False] li assms(3) self
      by (simp add: items_def[of "_\<lparr>capacity_m := _, size_m := _, data_m := _\<rparr>"] inv_size_def)
  qed
qed


theorem copy_assign_correct_witness:
  "(0::nat) \<noteq> 1
   \<and> inv_size (two_objects \<lparr>data_m = [Some 1, Some 2, Some 3], size_m = 3, capacity_m = 3\<rparr>
                           \<lparr>data_m = [Some 7, Some 8, None, None], size_m = 2, capacity_m = 4\<rparr> 0)
   \<and> inv_size (two_objects \<lparr>data_m = [Some 1, Some 2, Some 3], size_m = 3, capacity_m = 3\<rparr>
                           \<lparr>data_m = [Some 7, Some 8, None, None], size_m = 2, capacity_m = 4\<rparr> 1)
   \<and> (\<exists>s'. copy_assign (two_objects \<lparr>data_m = [Some 1, Some 2, Some 3], size_m = 3, capacity_m = 3\<rparr>
                                      \<lparr>data_m = [Some 7, Some 8, None, None], size_m = 2, capacity_m = 4\<rparr>) 0 1
               = Inr s'
          \<and> s' 1 = \<lparr>data_m = [Some 7, Some 8, None, None], size_m = 2, capacity_m = 4\<rparr>
          \<and> size_m (s' 0) = 2
          \<and> items (s' 0) = [Some 7, Some 8]
          \<and> capacity_m (s' 0) = 3
          \<and> data_m (s' 0) = [Some 7, Some 8, Some 3])
   \<and> inv_size (two_objects \<lparr>data_m = [Some 9], size_m = 1, capacity_m = 1\<rparr>
                           \<lparr>data_m = [Some 7, Some 8, None, None], size_m = 2, capacity_m = 4\<rparr> 0)
   \<and> (\<exists>s'. copy_assign (two_objects \<lparr>data_m = [Some 9], size_m = 1, capacity_m = 1\<rparr>
                                      \<lparr>data_m = [Some 7, Some 8, None, None], size_m = 2, capacity_m = 4\<rparr>) 0 1
               = Inr s'
          \<and> s' 1 = \<lparr>data_m = [Some 7, Some 8, None, None], size_m = 2, capacity_m = 4\<rparr>
          \<and> size_m (s' 0) = 2
          \<and> items (s' 0) = [Some 7, Some 8]
          \<and> capacity_m (s' 0) = 4
          \<and> data_m (s' 0) = [Some 7, Some 8, None, None])"
proof -
  let ?a = "\<lparr>data_m = [Some (1::nat), Some 2, Some 3], size_m = 3, capacity_m = 3\<rparr>"
  let ?b = "\<lparr>data_m = [Some (7::nat), Some 8, None, None], size_m = 2, capacity_m = 4\<rparr>"
  let ?c = "\<lparr>data_m = [Some (9::nat)], size_m = 1, capacity_m = 1\<rparr>"
  let ?s = "two_objects ?a ?b"
  let ?t = "two_objects ?c ?b"
  have ne: "(0::nat) \<noteq> 1" by simp
  have i0: "inv_size (?s 0)" and i1: "inv_size (?s 1)"
    and j0: "inv_size (?t 0)" and j1: "inv_size (?t 1)"
    by (simp_all add: inv_size_def)
  from copy_assign_correct[OF ne i0 i1] obtain s1 where
    r1: "copy_assign ?s 0 1 = Inr s1" and o1: "\<forall>a. a \<noteq> 0 \<longrightarrow> s1 a = ?s a"
    and z1: "size_m (s1 0) = size_m (?s 1)" and t1: "items (s1 0) = items (?s 1)"
    and c1: "if size_m (?s 1) < size_m (?s 0) \<or> capacity_m (?s 1) \<le> capacity_m (?s 0)
         then capacity_m (s1 0) = capacity_m (?s 0)
            \<and> data_m (s1 0) = items (?s 1) @ drop (size_m (?s 1)) (data_m (?s 0))
         else capacity_m (s1 0) = capacity_m (?s 1)
            \<and> capacity_m (s1 0) \<noteq> capacity_m (?s 0)
            \<and> data_m (s1 0) = items (?s 1) @ replicate (capacity_m (?s 1) - size_m (?s 1)) None"
    by blast
  from o1 have o1': "s1 1 = ?b" by simp
  from z1 t1 c1 have v1: "size_m (s1 0) = 2" "items (s1 0) = [Some 7, Some 8]"
    "capacity_m (s1 0) = 3" "data_m (s1 0) = [Some 7, Some 8, Some 3]"
    by (simp_all add: items_def)
  from copy_assign_correct[OF ne j0 j1] obtain s2 where
    r2: "copy_assign ?t 0 1 = Inr s2" and o2: "\<forall>a. a \<noteq> 0 \<longrightarrow> s2 a = ?t a"
    and z2: "size_m (s2 0) = size_m (?t 1)" and t2: "items (s2 0) = items (?t 1)"
    and c2: "if size_m (?t 1) < size_m (?t 0) \<or> capacity_m (?t 1) \<le> capacity_m (?t 0)
         then capacity_m (s2 0) = capacity_m (?t 0)
            \<and> data_m (s2 0) = items (?t 1) @ drop (size_m (?t 1)) (data_m (?t 0))
         else capacity_m (s2 0) = capacity_m (?t 1)
            \<and> capacity_m (s2 0) \<noteq> capacity_m (?t 0)
            \<and> data_m (s2 0) = items (?t 1) @ replicate (capacity_m (?t 1) - size_m (?t 1)) None"
    by blast
  from o2 have o2': "s2 1 = ?b" by simp
  from z2 t2 c2 have v2: "size_m (s2 0) = 2" "items (s2 0) = [Some 7, Some 8]"
    "capacity_m (s2 0) = 4" "data_m (s2 0) = [Some 7, Some 8, None, None]"
    by (simp_all add: items_def numeral_2_eq_2)
  from ne i0 i1 r1 o1' v1 j0 r2 o2' v2 show ?thesis by blast
qed

section \<open>Move assignment\<close>

lemma move_assign_reuse:
  assumes "this \<noteq> rhs" "inv_size (s this)" "inv_size (s rhs)"
    "size_m (s this) > size_m (s rhs) \<or> capacity_m (s this) \<ge> capacity_m (s rhs)"
  shows "move_assign s this rhs =
     Inr (s(this := (s this)\<lparr>data_m := items (s rhs) @ drop (size_m (s rhs)) (data_m (s this)),
                              size_m := size_m (s rhs)\<rparr>,
            rhs := (s rhs)\<lparr>data_m := replicate (size_m (s rhs)) None
                                       @ drop (size_m (s rhs)) (data_m (s rhs)),
                            size_m := 0\<rparr>))"
proof -
  from assms have "size_m (s rhs) \<le> length (data_m (s rhs))" "size_m (s rhs) \<le> length (data_m (s this))"
    by (auto simp add: inv_size_def)
  then show ?thesis
    using std_copy_ok[of 0 "size_m (s rhs)" "data_m (s rhs)" "data_m (s this)" True] assms(1,4)
    by (simp add: move_assign_def items_def)
qed

lemma move_assign_realloc:
  assumes "this \<noteq> rhs" "inv_size (s this)" "inv_size (s rhs)"
    "\<not> (size_m (s this) > size_m (s rhs) \<or> capacity_m (s this) \<ge> capacity_m (s rhs))"
  shows "move_assign s this rhs =
     Inr (s(this := (s this)\<lparr>capacity_m := capacity_m (s rhs),
                     data_m := items (s rhs) @ replicate (capacity_m (s rhs) - size_m (s rhs)) None,
                     size_m := size_m (s rhs)\<rparr>,
            rhs := (s rhs)\<lparr>data_m := replicate (size_m (s rhs)) None
                                       @ drop (size_m (s rhs)) (data_m (s rhs)),
                            size_m := 0\<rparr>))"
proof -
  from assms have "size_m (s rhs) \<le> length (data_m (s rhs))" "size_m (s rhs) \<le> capacity_m (s rhs)"
    "capacity_m (s rhs) \<noteq> 0"
    by (auto simp add: inv_size_def)
  then show ?thesis
    using std_copy_ok[of 0 "size_m (s rhs)" "data_m (s rhs)" "replicate (capacity_m (s rhs)) None" True]
      assms(1,4)
    by (simp add: move_assign_def items_def Realloc_eq)
qed

text \<open>
  Claim C10. For two different objects that satisfy the size invariant, move assignment
  returns and leaves the source with length 0 and its capacity unchanged, whether the
  destination keeps its block or gets a new one: the source still owns its block, of the
  same number of slots, in which the slots moved from have unspecified content, and the
  destination holds the source's former elements in its own block, old or new. The move
  constructor instead hands the whole object, block included, to the new vector and leaves
  the source with length 0, capacity 0 and no block.
\<close>

theorem move_assign_source:
  assumes "this \<noteq> rhs" "inv_size (s this)" "inv_size (s rhs)"
  shows "(\<exists>s'. move_assign s this rhs = Inr s'
      \<and> size_m (s' rhs) = 0
      \<and> capacity_m (s' rhs) = capacity_m (s rhs)
      \<and> length (data_m (s' rhs)) = length (data_m (s rhs))
      \<and> data_m (s' rhs) = replicate (size_m (s rhs)) None @ drop (size_m (s rhs)) (data_m (s rhs))
      \<and> inv_size (s' rhs)
      \<and> size_m (s' this) = size_m (s rhs)
      \<and> items (s' this) = items (s rhs)
      \<and> inv_size (s' this)
      \<and> (if size_m (s this) > size_m (s rhs) \<or> capacity_m (s this) \<ge> capacity_m (s rhs)
         then capacity_m (s' this) = capacity_m (s this)
            \<and> data_m (s' this) = items (s rhs) @ drop (size_m (s rhs)) (data_m (s this))
         else capacity_m (s' this) = capacity_m (s rhs)
            \<and> data_m (s' this) = items (s rhs) @ replicate (capacity_m (s rhs) - size_m (s rhs)) None))
    \<and> size_m (snd (SimpleVector_move (s rhs))) = 0
    \<and> capacity_m (snd (SimpleVector_move (s rhs))) = 0
    \<and> data_m (snd (SimpleVector_move (s rhs))) = []
    \<and> fst (SimpleVector_move (s rhs)) = s rhs"
proof -
  have li: "length (items (s rhs)) = size_m (s rhs)" using length_items[OF assms(3)] .
  have len: "size_m (s rhs) \<le> length (data_m (s rhs))" "length (data_m (s rhs)) = capacity_m (s rhs)"
    using assms(3) by (simp_all add: inv_size_def)
  have mv: "size_m (snd (SimpleVector_move (s rhs))) = 0
    \<and> capacity_m (snd (SimpleVector_move (s rhs))) = 0
    \<and> data_m (snd (SimpleVector_move (s rhs))) = []
    \<and> fst (SimpleVector_move (s rhs)) = s rhs"
    by (simp add: SimpleVector_move_def)
  show ?thesis
  proof (cases "size_m (s this) > size_m (s rhs) \<or> capacity_m (s this) \<ge> capacity_m (s rhs)")
    case True
    have "size_m (s rhs) \<le> capacity_m (s this)"
      using True assms(2,3) by (auto simp add: inv_size_def)
    then show ?thesis
      using move_assign_reuse[OF assms True] True li len assms(1,2) mv
      by (simp add: items_def[of "_\<lparr>data_m := _, size_m := _\<rparr>"] inv_size_def)
  next
    case False
    then show ?thesis
      using move_assign_realloc[OF assms False] li len assms(1,3) mv
      by (simp add: items_def[of "_\<lparr>capacity_m := _, data_m := _, size_m := _\<rparr>"] inv_size_def)
  qed
qed

theorem move_assign_source_witness:
  "(0::nat) \<noteq> 1
   \<and> inv_size (two_objects \<lparr>data_m = [Some 9], size_m = 1, capacity_m = 1\<rparr>
                           \<lparr>data_m = [Some 7, Some 8, None, None], size_m = 2, capacity_m = 4\<rparr> 0)
   \<and> inv_size (two_objects \<lparr>data_m = [Some 9], size_m = 1, capacity_m = 1\<rparr>
                           \<lparr>data_m = [Some 7, Some 8, None, None], size_m = 2, capacity_m = 4\<rparr> 1)
   \<and> (\<exists>s'. move_assign (two_objects \<lparr>data_m = [Some 9], size_m = 1, capacity_m = 1\<rparr>
                                      \<lparr>data_m = [Some 7, Some 8, None, None], size_m = 2, capacity_m = 4\<rparr>) 0 1
               = Inr s'
          \<and> size_m (s' 1) = 0
          \<and> capacity_m (s' 1) = 4
          \<and> data_m (s' 1) = [None, None, None, None]
          \<and> size_m (s' 0) = 2
          \<and> items (s' 0) = [Some 7, Some 8]
          \<and> capacity_m (s' 0) = 4
          \<and> data_m (s' 0) = [Some 7, Some 8, None, None])"
proof -
  let ?a = "\<lparr>data_m = [Some (9::nat)], size_m = 1, capacity_m = 1\<rparr>"
  let ?b = "\<lparr>data_m = [Some (7::nat), Some 8, None, None], size_m = 2, capacity_m = 4\<rparr>"
  let ?s = "two_objects ?a ?b"
  have ne: "(0::nat) \<noteq> 1" by simp
  have i0: "inv_size (?s 0)" and i1: "inv_size (?s 1)"
    by (simp_all add: inv_size_def)
  from move_assign_source[OF ne i0 i1] obtain s1 where
    r1: "move_assign ?s 0 1 = Inr s1"
    and z1: "size_m (s1 1) = 0" and k1: "capacity_m (s1 1) = capacity_m (?s 1)"
    and d1: "data_m (s1 1) = replicate (size_m (?s 1)) None @ drop (size_m (?s 1)) (data_m (?s 1))"
    and z0: "size_m (s1 0) = size_m (?s 1)" and t0: "items (s1 0) = items (?s 1)"
    and c0: "if size_m (?s 1) < size_m (?s 0) \<or> capacity_m (?s 1) \<le> capacity_m (?s 0)
         then capacity_m (s1 0) = capacity_m (?s 0)
            \<and> data_m (s1 0) = items (?s 1) @ drop (size_m (?s 1)) (data_m (?s 0))
         else capacity_m (s1 0) = capacity_m (?s 1)
            \<and> data_m (s1 0) = items (?s 1) @ replicate (capacity_m (?s 1) - size_m (?s 1)) None"
    by blast
  from k1 d1 have v1: "capacity_m (s1 1) = 4" "data_m (s1 1) = [None, None, None, None]"
    by (simp_all add: numeral_2_eq_2)
  from z0 t0 c0 have v0: "size_m (s1 0) = 2" "items (s1 0) = [Some 7, Some 8]"
    "capacity_m (s1 0) = 4" "data_m (s1 0) = [Some 7, Some 8, None, None]"
    by (simp_all add: items_def numeral_2_eq_2)
  from ne i0 i1 r1 z1 v1 v0 show ?thesis by blast
qed

section \<open>Resizing\<close>

text \<open>
  \<^verbatim>\<open>Resize\<close> in closed form: shrinking only sets the length; growing below the capacity
  fills the exposed slots in place; from \<open>new_size = capacity\<close> on it reallocates to
  \<open>2 * new_size\<close> slots (when that product is a \<^verbatim>\<open>size_t\<close>).
\<close>

lemma Resize_shrink:
  "new_size \<le> size_m v \<Longrightarrow> Resize dflt v new_size = Inr (v\<lparr>size_m := new_size\<rparr>)"
  by (simp add: Resize_def)

lemma Resize_in_place:
  assumes "inv_size v" "size_m v < new_size" "new_size < capacity_m v"
  shows "Resize dflt v new_size =
     Inr (v\<lparr>data_m := items v @ replicate (new_size - size_m v) (Some dflt) @ drop new_size (data_m v),
             size_m := new_size\<rparr>)"
proof -
  from assms have "size_m v \<le> new_size" "new_size \<le> length (data_m v)"
    by (simp_all add: inv_size_def)
  then show ?thesis
    using std_fill_ok[of "size_m v" new_size "data_m v" dflt] assms(2,3)
    by (simp add: Resize_def items_def)
qed

lemma Resize_realloc:
  assumes "inv_size v" "size_m v < new_size" "\<not> new_size < capacity_m v"
    "capacity_multiplier * new_size \<le> SIZE_MAX"
  shows "Resize dflt v new_size =
     Inr (v\<lparr>data_m := items v @ replicate (new_size - size_m v) (Some dflt) @ replicate new_size None,
             capacity_m := 2 * new_size, size_m := new_size\<rparr>)"
proof -
  let ?nc = "2 * new_size"
  from assms have sz: "size_m v \<le> length (data_m v)" "size_m v \<le> ?nc" "size_m v \<le> new_size"
    "new_size \<le> ?nc" "?nc \<noteq> 0"
    by (simp_all add: inv_size_def)
  have c: "std_copy True (data_m v) 0 (size_m v) (replicate ?nc None) 0 =
     Inr (replicate (size_m v) None @ drop (size_m v) (data_m v),
          items v @ replicate (?nc - size_m v) None)"
    using std_copy_ok[of 0 "size_m v" "data_m v" "replicate ?nc None" True] sz
    by (simp add: items_def)
  have li: "length (items v) = size_m v" using length_items[OF assms(1)] .
  have f: "std_fill (items v @ replicate (?nc - size_m v) None) (size_m v) new_size dflt =
     Inr (items v @ replicate (new_size - size_m v) (Some dflt) @ replicate new_size None)"
    using std_fill_ok[of "size_m v" new_size "items v @ replicate (?nc - size_m v) None" dflt] sz li
    by simp
  show ?thesis
    using assms(2,3) c f sz(5) size_t_mul_exact[OF assms(4)]
    by (simp add: Resize_def Realloc_eq capacity_multiplier_def)
qed

text \<open>
  Claim C2. The claim has \<^verbatim>\<open>Resize\<close> fill in place, with the capacity unchanged, whenever
  \<open>size < new_size \<le> capacity\<close>. The guard of the in-place branch is \<^verbatim>\<open>new_size < capacity_\<close>:
  on \<open>[1,2]\<close> with capacity 3, \<^verbatim>\<open>Resize(3)\<close> yields \<open>[1,2,0]\<close> but in a new block of capacity
  6. The sibling operations do not reallocate when the request equals the capacity:
  \<^verbatim>\<open>Reserve(3)\<close> leaves the same vector as it is, and \<^verbatim>\<open>PushBack\<close> raises its length to 3 in the
  block it has.
\<close>

theorem Resize_to_capacity_reallocates:
  "Resize 0 \<lparr>data_m = [Some (1::nat), Some 2, None], size_m = 2, capacity_m = 3\<rparr> 3
     = Inr \<lparr>data_m = [Some 1, Some 2, Some 0, None, None, None], size_m = 3, capacity_m = 6\<rparr>
   \<and> inv_size \<lparr>data_m = [Some (1::nat), Some 2, None], size_m = 2, capacity_m = 3\<rparr>
   \<and> Reserve \<lparr>data_m = [Some (1::nat), Some 2, None], size_m = 2, capacity_m = 3\<rparr> 3
     = Inr \<lparr>data_m = [Some (1::nat), Some 2, None], size_m = 2, capacity_m = 3\<rparr>
   \<and> PushBack \<lparr>data_m = [Some (1::nat), Some 2, None], size_m = 2, capacity_m = 3\<rparr> 0
     = Inr \<lparr>data_m = [Some 1, Some 2, Some 0], size_m = 3, capacity_m = 3\<rparr>"
proof -
  have m: "size_t_mul capacity_multiplier 3 = 6"
    by (simp add: size_t_mul_exact capacity_multiplier_def SIZE_MAX_def)
  have a: "Resize 0 \<lparr>data_m = [Some (1::nat), Some 2, None], size_m = 2, capacity_m = 3\<rparr> 3
     = Inr \<lparr>data_m = [Some 1, Some 2, Some 0, None, None, None], size_m = 3, capacity_m = 6\<rparr>"
    apply (simp add: Resize_def m)
    apply code_simp
    done
  have b: "inv_size \<lparr>data_m = [Some (1::nat), Some 2, None], size_m = 2, capacity_m = 3\<rparr>"
    by (simp add: inv_size_def)
  have c: "Reserve \<lparr>data_m = [Some (1::nat), Some 2, None], size_m = 2, capacity_m = 3\<rparr> 3
     = Inr \<lparr>data_m = [Some (1::nat), Some 2, None], size_m = 2, capacity_m = 3\<rparr>"
    by (simp add: Reserve_def)
  have d: "PushBack \<lparr>data_m = [Some (1::nat), Some 2, None], size_m = 2, capacity_m = 3\<rparr> 0
     = Inr \<lparr>data_m = [Some 1, Some 2, Some 0], size_m = 3, capacity_m = 3\<rparr>"
    by (simp add: PushBack_def slot_write_def)
  from a b c d show ?thesis by (intro conjI)
qed

section \<open>The class invariant\<close>

text \<open>
  \<open>invariant\<close> (\<open>size \<le> capacity\<close>, the capacity is the number of slots of the block, and
  every slot below \<open>size\<close> is live) holds of every vector that a constructor returns and
  is kept by every operation below, for arguments inside the caller's contract (a position
  in \<open>[begin, end]\<close> for \<^verbatim>\<open>Insert\<close>, in \<open>[begin, end)\<close> for \<^verbatim>\<open>Erase\<close>). For the copy overload
  of \<^verbatim>\<open>Insert\<close> this is so while there is room in the block.
\<close>

lemma live_items: "live v \<longleftrightarrow> None \<notin> set (items v)"
  by (simp add: live_def)

lemma inv_default: "invariant (SimpleVector_default :: 'a SimpleVector)"
  by (simp add: invariant_def inv_size_def live_def items_def SimpleVector_default_def)

lemma std_fill_all: "std_fill (replicate n None) 0 n val = Inr (replicate n (Some val))"
  using std_fill_ok[of 0 n "replicate n None" val] by simp

lemma inv_n:
  "SimpleVector_n dflt n = Inr \<lparr>data_m = replicate n (Some dflt), size_m = n, capacity_m = n\<rparr>
   \<and> invariant \<lparr>data_m = replicate n (Some dflt), size_m = n, capacity_m = n\<rparr>"
  by (simp add: SimpleVector_n_def ArrayPtr_new_def std_fill_all invariant_def inv_size_def
      live_def items_def)

lemma inv_n_value:
  "SimpleVector_n_value n val = Inr \<lparr>data_m = replicate n (Some val), size_m = n, capacity_m = n\<rparr>
   \<and> invariant \<lparr>data_m = replicate n (Some val), size_m = n, capacity_m = n\<rparr>"
  by (simp add: SimpleVector_n_value_def ArrayPtr_new_def std_fill_all invariant_def inv_size_def
      live_def items_def)

lemma inv_reserve: "invariant (SimpleVector_reserve n)"
  by (simp add: invariant_def inv_size_def live_def items_def SimpleVector_reserve_def ArrayPtr_new_def)

lemma inv_init:
  "SimpleVector_init init = Inr \<lparr>data_m = map Some init, size_m = length init, capacity_m = length init\<rparr>
   \<and> invariant \<lparr>data_m = map Some init, size_m = length init, capacity_m = length init\<rparr>"
  using std_copy_ok[of 0 "length init" "map Some init" "replicate (length init) None" False]
  by (auto simp add: SimpleVector_init_def ArrayPtr_new_def invariant_def inv_size_def
      live_def items_def)

lemma inv_copy:
  assumes "invariant other"
  shows "\<exists>v. SimpleVector_copy other = Inr v \<and> items v = items other
      \<and> capacity_m v = capacity_m other \<and> invariant v"
proof -
  from assms have sz: "size_m other \<le> length (data_m other)" "size_m other \<le> capacity_m other"
    and lv: "None \<notin> set (items other)"
    by (simp_all add: invariant_def inv_size_def live_def)
  have "SimpleVector_copy other =
      Inr \<lparr>data_m = items other @ replicate (capacity_m other - size_m other) None,
           size_m = size_m other, capacity_m = capacity_m other\<rparr>"
    using std_copy_ok[of 0 "size_m other" "data_m other" "replicate (capacity_m other) None" False] sz
    by (simp add: SimpleVector_copy_def ArrayPtr_new_def items_def)
  moreover have "length (items other) = size_m other" using sz by (simp add: items_def)
  ultimately show ?thesis
    using sz lv by (simp add: invariant_def inv_size_def live_def
        items_def[of "\<lparr>data_m = _, size_m = _, capacity_m = _\<rparr>"])
qed

lemma inv_move:
  "invariant other \<Longrightarrow>
   invariant (fst (SimpleVector_move other)) \<and> invariant (snd (SimpleVector_move other))"
  by (simp add: SimpleVector_move_def invariant_def inv_size_def live_def items_def)

lemma inv_PopBack: "invariant v \<Longrightarrow> invariant (PopBack v)"
  using set_take_subset_set_take[of "size_m v - 1" "size_m v" "data_m v"]
  by (auto simp add: PopBack_def invariant_def inv_size_def live_def items_def)

lemma inv_Clear: "invariant v \<Longrightarrow> invariant (Clear v)"
  by (simp add: Clear_def invariant_def inv_size_def live_def items_def)

lemma inv_swap:
  "invariant (s this) \<Longrightarrow> invariant (s other) \<Longrightarrow>
   invariant (swap s this other this) \<and> invariant (swap s this other other)"
  by (simp add: swap_def invariant_def inv_size_def live_def items_def)


lemma inv_PushBack:
  assumes "invariant v" "capacity_multiplier * capacity_m v \<le> SIZE_MAX"
  shows "\<exists>v'. PushBack v x = Inr v' \<and> PushBack_move v x = Inr v' \<and> invariant v'"
proof (cases "size_m v < capacity_m v")
  case True
  from assms have inv: "inv_size v" and lv: "None \<notin> set (items v)"
    by (simp_all add: invariant_def live_def)
  show ?thesis
    using PushBack_in_place[OF inv True, of x] items_in_place[OF inv True, of x] inv lv True
    by (simp add: invariant_def live_def inv_size_def)
next
  case False
  from assms have inv: "inv_size v" and lv: "None \<notin> set (items v)"
    by (simp_all add: invariant_def live_def)
  from inv False have sz: "size_m v = capacity_m v" and len: "length (data_m v) = capacity_m v"
    by (auto simp: inv_size_def)
  have nc: "capacity_m v < grown (capacity_m v)" by (simp add: grown_def)
  show ?thesis
    using PushBack_grow[OF inv False assms(2), of x] lv sz len nc
    by (simp add: invariant_def live_def inv_size_def items_def)
qed

lemma inv_Insert_move:
  assumes "invariant v" "pos \<le> size_m v" "capacity_multiplier * capacity_m v \<le> SIZE_MAX"
  shows "\<exists>v'. Insert_move v pos x = Inr (v', pos) \<and> invariant v'"
proof -
  from assms have inv: "inv_size v" and lv: "None \<notin> set (items v)"
    by (simp_all add: invariant_def live_def)
  from Insert_move_shifts[OF inv assms(2,3), of x] obtain v' where
    r: "Insert_move v pos x = Inr (v', pos)"
    and it: "items v' = take pos (items v) @ Some x # drop pos (items v)"
    and iv: "inv_size v'" by blast
  from it lv have "None \<notin> set (items v')"
    by (auto dest: in_set_takeD in_set_dropD)
  with r iv show ?thesis by (simp add: invariant_def live_def)
qed

lemma inv_Insert_in_place:
  assumes "invariant v" "pos \<le> size_m v" "size_m v < capacity_m v"
  shows "\<exists>v'. Insert v pos x = Inr (v', pos) \<and> invariant v'"
proof -
  from assms have inv: "inv_size v" and lv: "None \<notin> set (items v)"
    by (simp_all add: invariant_def live_def)
  from Insert_copy_in_place_shifts[OF inv assms(2,3), of x] obtain v' where
    r: "Insert v pos x = Inr (v', pos)"
    and it: "items v' = take pos (items v) @ Some x # drop pos (items v)"
    and iv: "inv_size v'" by blast
  from it lv have "None \<notin> set (items v')"
    by (auto dest: in_set_takeD in_set_dropD)
  with r iv show ?thesis by (simp add: invariant_def live_def)
qed

lemma inv_Erase:
  assumes "invariant v" "pos < size_m v"
  shows "\<exists>v'. Erase v pos = Inr (v', pos) \<and> invariant v'"
proof -
  from assms have inv: "inv_size v" and lv: "None \<notin> set (items v)"
    by (simp_all add: invariant_def live_def)
  from inv assms(2) have len: "size_m v \<le> length (data_m v)" "length (data_m v) = capacity_m v"
    by (simp_all add: inv_size_def)
  have li: "length (items v) = size_m v" using length_items[OF inv] .
  let ?v' = "v\<lparr>data_m := take pos (data_m v) @ drop (Suc pos) (items v)
                  @ (if Suc pos < size_m v then None else data_m v ! (size_m v - 1))
                  # drop (size_m v) (data_m v),
             size_m := size_m v - 1\<rparr>"
  have it: "items ?v' = take pos (items v) @ drop (Suc pos) (items v)"
    using assms(2) len li by (simp add: items_def min_absorb2)
  have "None \<notin> set (items ?v')"
    unfolding it using lv by (auto dest: in_set_takeD in_set_dropD)
  moreover have "inv_size ?v'"
    using assms(2) len li by (simp add: inv_size_def min_absorb2)
  ultimately show ?thesis
    using Erase_shifts[OF inv assms(2)] by (simp add: invariant_def live_def)
qed

lemma inv_Resize:
  assumes "invariant v" "capacity_multiplier * new_size \<le> SIZE_MAX"
  shows "\<exists>v'. Resize dflt v new_size = Inr v' \<and> size_m v' = new_size \<and> invariant v'"
proof -
  from assms have inv: "inv_size v" and lv: "None \<notin> set (items v)"
    by (simp_all add: invariant_def live_def)
  have li: "length (items v) = size_m v" using length_items[OF inv] .
  from inv have len: "size_m v \<le> capacity_m v" "length (data_m v) = capacity_m v"
    by (simp_all add: inv_size_def)
  consider "new_size \<le> size_m v" | "size_m v < new_size" "new_size < capacity_m v"
    | "size_m v < new_size" "\<not> new_size < capacity_m v" by arith
  then show ?thesis
  proof cases
    case 1
    then show ?thesis
      using Resize_shrink[OF 1, of dflt] lv len
        set_take_subset_set_take[of new_size "size_m v" "data_m v"]
      by (auto simp add: invariant_def live_def inv_size_def items_def)
  next
    case 2
    then show ?thesis
      using Resize_in_place[OF inv 2, of dflt] lv len li
      by (simp add: invariant_def live_def inv_size_def items_def[of "_\<lparr>data_m := _, size_m := _\<rparr>"])
  next
    case 3
    then show ?thesis
      using Resize_realloc[OF inv 3 assms(2), of dflt] lv len li
      by (simp add: invariant_def live_def inv_size_def
          items_def[of "_\<lparr>data_m := _, capacity_m := _, size_m := _\<rparr>"])
  qed
qed

lemma inv_Reserve:
  assumes "invariant v"
  shows "\<exists>v'. Reserve v new_capacity = Inr v' \<and> items v' = items v
     \<and> capacity_m v' = max (capacity_m v) new_capacity \<and> invariant v'"
proof (cases "capacity_m v < new_capacity")
  case True
  from assms have inv: "inv_size v" and lv: "None \<notin> set (items v)"
    by (simp_all add: invariant_def live_def)
  have li: "length (items v) = size_m v" using length_items[OF inv] .
  from inv True have len: "size_m v \<le> length (data_m v)" "size_m v \<le> new_capacity" "new_capacity \<noteq> 0"
    by (simp_all add: inv_size_def)
  have "Reserve v new_capacity =
      Inr (v\<lparr>data_m := items v @ replicate (new_capacity - size_m v) None, capacity_m := new_capacity\<rparr>)"
    using std_copy_ok[of 0 "size_m v" "data_m v" "replicate new_capacity None" False] len True
    by (simp add: Reserve_def Realloc_eq items_def)
  then show ?thesis
    using lv li len True
    by (simp add: invariant_def live_def inv_size_def items_def[of "_\<lparr>data_m := _, capacity_m := _\<rparr>"])
next
  case False
  then show ?thesis using assms by (simp add: Reserve_def max_def)
qed

lemma inv_copy_assign:
  assumes "this \<noteq> rhs" "invariant (s this)" "invariant (s rhs)"
  shows "\<exists>s'. copy_assign s this rhs = Inr s' \<and> invariant (s' this) \<and> invariant (s' rhs)"
proof -
  from assms have i1: "inv_size (s this)" and i2: "inv_size (s rhs)" and lv: "None \<notin> set (items (s rhs))"
    by (simp_all add: invariant_def live_def)
  have li: "length (items (s rhs)) = size_m (s rhs)" using length_items[OF i2] .
  show ?thesis
  proof (cases "size_m (s this) > size_m (s rhs) \<or> capacity_m (s this) \<ge> capacity_m (s rhs)")
    case True
    have "size_m (s rhs) \<le> capacity_m (s this)"
      using True i1 i2 by (auto simp add: inv_size_def)
    then show ?thesis
      using copy_assign_reuse[OF assms(1) i1 i2 True] li lv i1 assms(1,3)
      by (simp add: invariant_def live_def inv_size_def items_def[of "_\<lparr>data_m := _, size_m := _\<rparr>"])
  next
    case False
    then show ?thesis
      using copy_assign_realloc[OF assms(1) i1 i2 False] li lv i2 assms(1,3)
      by (simp add: invariant_def live_def inv_size_def
          items_def[of "_\<lparr>capacity_m := _, size_m := _, data_m := _\<rparr>"])
  qed
qed

lemma inv_move_assign:
  assumes "this \<noteq> rhs" "invariant (s this)" "invariant (s rhs)"
  shows "\<exists>s'. move_assign s this rhs = Inr s' \<and> invariant (s' this) \<and> invariant (s' rhs)"
proof -
  from assms have i1: "inv_size (s this)" and i2: "inv_size (s rhs)" and lv: "None \<notin> set (items (s rhs))"
    by (simp_all add: invariant_def live_def)
  have li: "length (items (s rhs)) = size_m (s rhs)" using length_items[OF i2] .
  have len: "size_m (s rhs) \<le> length (data_m (s rhs))" "length (data_m (s rhs)) = capacity_m (s rhs)"
    using i2 by (simp_all add: inv_size_def)
  have e: "items (v\<lparr>size_m := 0\<rparr>) = []" for v :: "'a SimpleVector" by (simp add: items_def)
  show ?thesis
  proof (cases "size_m (s this) > size_m (s rhs) \<or> capacity_m (s this) \<ge> capacity_m (s rhs)")
    case True
    have "size_m (s rhs) \<le> capacity_m (s this)"
      using True i1 i2 by (auto simp add: inv_size_def)
    then show ?thesis
      using move_assign_reuse[OF assms(1) i1 i2 True] li lv i1 len assms(1)
      by (simp add: invariant_def live_def inv_size_def items_def[of "_\<lparr>data_m := _, size_m := _\<rparr>"])
  next
    case False
    then show ?thesis
      using move_assign_realloc[OF assms(1) i1 i2 False] li lv i2 len assms(1)
      by (simp add: invariant_def live_def inv_size_def
          items_def[of "_\<lparr>capacity_m := _, data_m := _, size_m := _\<rparr>"]
          items_def[of "_\<lparr>data_m := _, size_m := _\<rparr>"])
  qed
qed

text \<open>
  Claim C8. The claim has every operation keep the invariant, \<^verbatim>\<open>Insert\<close> included. The copy
  overload of \<^verbatim>\<open>Insert\<close> on the full vector \<open>[1,2]\<close>, at its second position and with value 9,
  returns a vector of length 3 whose slots are \<open>2, 9\<close> and one never assigned: the slot
  below the length is not live, and the element 1 is lost. The move overload returns
  \<open>[1,9,2]\<close> at the same input and keeps the invariant. At the first position of the same
  vector the copy overload steps below the start of the new block.
\<close>

theorem Insert_copy_breaks_invariant:
  "invariant \<lparr>data_m = [Some (1::nat), Some 2], size_m = 2, capacity_m = 2\<rparr>
   \<and> Insert \<lparr>data_m = [Some (1::nat), Some 2], size_m = 2, capacity_m = 2\<rparr> 1 9
       = Inr (\<lparr>data_m = [Some 2, Some 9, None, None], size_m = 3, capacity_m = 4\<rparr>, 1)
   \<and> \<not> live \<lparr>data_m = [Some (2::nat), Some 9, None, None], size_m = 3, capacity_m = 4\<rparr>
   \<and> \<not> invariant \<lparr>data_m = [Some (2::nat), Some 9, None, None], size_m = 3, capacity_m = 4\<rparr>
   \<and> Insert_move \<lparr>data_m = [Some (1::nat), Some 2], size_m = 2, capacity_m = 2\<rparr> 1 9
       = Inr (\<lparr>data_m = [Some 1, Some 9, Some 2, None], size_m = 3, capacity_m = 4\<rparr>, 1)
   \<and> invariant \<lparr>data_m = [Some (1::nat), Some 9, Some 2, None], size_m = 3, capacity_m = 4\<rparr>
   \<and> Insert \<lparr>data_m = [Some (1::nat), Some 2], size_m = 2, capacity_m = 2\<rparr> 0 9
       = Inl undefined_behaviour"
proof -
  have m: "size_t_mul capacity_multiplier 2 = 4"
    by (simp add: size_t_mul_exact capacity_multiplier_def SIZE_MAX_def)
  have a: "invariant \<lparr>data_m = [Some (1::nat), Some 2], size_m = 2, capacity_m = 2\<rparr>"
    by (simp add: invariant_def inv_size_def live_def items_def)
  have b: "Insert \<lparr>data_m = [Some (1::nat), Some 2], size_m = 2, capacity_m = 2\<rparr> 1 9
       = Inr (\<lparr>data_m = [Some 2, Some 9, None, None], size_m = 3, capacity_m = 4\<rparr>, 1)"
    apply (simp add: Insert_def m)
    apply code_simp
    done
  have c: "\<not> live \<lparr>data_m = [Some (2::nat), Some 9, None, None], size_m = 3, capacity_m = 4\<rparr>"
    by (simp add: live_def items_def)
  have d: "\<not> invariant \<lparr>data_m = [Some (2::nat), Some 9, None, None], size_m = 3, capacity_m = 4\<rparr>"
    using c by (simp add: invariant_def)
  have e: "Insert_move \<lparr>data_m = [Some (1::nat), Some 2], size_m = 2, capacity_m = 2\<rparr> 1 9
       = Inr (\<lparr>data_m = [Some 1, Some 9, Some 2, None], size_m = 3, capacity_m = 4\<rparr>, 1)"
    apply (simp add: Insert_move_def m)
    apply code_simp
    done
  have f: "invariant \<lparr>data_m = [Some (1::nat), Some 9, Some 2, None], size_m = 3, capacity_m = 4\<rparr>"
    by (simp add: invariant_def inv_size_def live_def items_def)
  have g: "Insert \<lparr>data_m = [Some (1::nat), Some 2], size_m = 2, capacity_m = 2\<rparr> 0 9
       = Inl undefined_behaviour"
    apply (simp add: Insert_def m)
    apply code_simp
    done
  from a b c d e f g show ?thesis by (intro conjI)
qed

end
